(* ===== verification/Guard_Prelude.thy ===== *)
theory Guard_Prelude
  imports Main "HOL-Library.Word"
begin

text \<open>
  Shared vocabulary of the development: the outcome of a Go call (a returned value or a
  panic), state-passing effects and their sequencing, calls to code outside the module with
  the trace of those calls, Go interface values with the \<open>reflect\<close> view the code uses to
  recognise nil, and the generic lemmas the component theories rely on.

  The collections: \<open>eff_simps\<close> evaluates effects, \<open>go_defs\<close> unfolds the small pure accessors
  of the modelled Go packages, \<open>answering\<close> composes the effects that always return.
\<close>

named_theorems eff_simps
named_theorems go_defs
named_theorems answering

section \<open>Effects\<close>

text \<open>
  A Go call returns or panics. An effect maps a state to the outcome of the call and the
  state it leaves behind; a panic keeps the changes made before it.
\<close>

datatype 'a outcome = Ret 'a | Panic string

type_synonym ('s, 'a) eff = "'s \<Rightarrow> 'a outcome \<times> 's"

definition retE :: "'a \<Rightarrow> ('s, 'a) eff" where
  "retE x = (\<lambda>s. (Ret x, s))"

definition bindE :: "('s, 'a) eff \<Rightarrow> ('a \<Rightarrow> ('s, 'b) eff) \<Rightarrow> ('s, 'b) eff" where
  "bindE m f = (\<lambda>s. case m s of (Ret x, s') \<Rightarrow> f x s' | (Panic p, s') \<Rightarrow> (Panic p, s'))"

text \<open>A nil pointer or nil interface is dereferenced: the Go run-time panics.\<close>

definition panicE :: "string \<Rightarrow> ('s, 'a) eff" where
  "panicE p = (\<lambda>s. (Panic p, s))"

text \<open>\<open>defer func() { _ = recover() }()\<close> around a call whose result is discarded.\<close>

definition recoverE :: "('s, 'a) eff \<Rightarrow> ('s, unit) eff" where
  "recoverE m = (\<lambda>s. (Ret (), snd (m s)))"

lemma retE_apply [eff_simps]: "retE x s = (Ret x, s)"
  by (simp add: retE_def)

lemma panicE_apply [eff_simps]: "panicE p s = (Panic p, s)"
  by (simp add: panicE_def)

lemma retE_sel [simp]: "fst (retE x s) = Ret x" "snd (retE x s) = s"
  by (simp_all add: retE_def)

lemma recoverE_apply [eff_simps]: "recoverE m s = (Ret (), snd (m s))"
  by (simp add: recoverE_def)

lemma bindE_retE [simp]: "bindE (retE x) f = f x"
  by (simp add: bindE_def retE_def)

lemma bindE_retE_right [simp]: "bindE m retE = m"
  by (auto simp: bindE_def retE_def fun_eq_iff split: prod.splits outcome.splits)

lemma bindE_assoc: "bindE (bindE m f) g = bindE m (\<lambda>x. bindE (f x) g)"
  by (auto simp: bindE_def fun_eq_iff split: prod.splits outcome.splits)

lemma bindE_apply:
  "bindE m f s = (case m s of (Ret x, s') \<Rightarrow> f x s' | (Panic p, s') \<Rightarrow> (Panic p, s'))"
  by (simp add: bindE_def)

lemma bindE_Ret [eff_simps]: "m s = (Ret x, s') \<Longrightarrow> bindE m f s = f x s'"
  by (simp add: bindE_def)

lemma bindE_Panic [eff_simps]: "m s = (Panic p, s') \<Longrightarrow> bindE m f s = (Panic p, s')"
  by (simp add: bindE_def)

lemma bindE_RetE:
  assumes "bindE m f s = (Ret y, s')"
  obtains x t where "m s = (Ret x, t)" and "f x t = (Ret y, s')"
  using assms by (auto simp: bindE_def split: prod.splits outcome.splits)

lemma outcomeE:
  assumes "fst p = r"
  obtains s where "p = (r, s)"
  using assms by (cases p) simp

lemma bindE_cong_result:
  assumes "m s = (r, s')" and "\<And>x. r = Ret x \<Longrightarrow> fst (f x s') = fst (g x s')"
  shows "fst (bindE m f s) = fst (bindE m g s)"
  using assms by (cases r) (auto simp: bindE_def)

subsection \<open>Calls out of the module, and their trace\<close>

text \<open>
  Rules, sinks and contexts are code the module only calls. Such a collaborator acts on an
  arbitrary world \<open>'w\<close>, which it may read and change. The state of a run is that world and
  the trace of the calls made so far, oldest first; \<open>extcall\<close> makes one call and records it.
\<close>

record ('w, 'c) sys =
  world :: 'w
  calls :: "'c list"

type_synonym ('w, 'a) act = "'w \<Rightarrow> 'a outcome \<times> 'w"

definition extcall :: "'c \<Rightarrow> ('w, 'a) act \<Rightarrow> (('w, 'c) sys, 'a) eff" where
  "extcall c f = (\<lambda>s. case f (world s) of (r, w') \<Rightarrow> (r, \<lparr>world = w', calls = calls s @ [c]\<rparr>))"

lemma calls_extcall [eff_simps]: "extcall c f s = (r, s') \<Longrightarrow> calls s' = calls s @ [c]"
  by (auto simp: extcall_def split: prod.splits)

lemma extcallE:
  assumes "f (world s) = (r, w)"
  obtains t where "extcall c f s = (r, t)" and "world t = w" and "calls t = calls s @ [c]"
  using that [of "\<lparr>world = w, calls = calls s @ [c]\<rparr>"] assms by (simp add: extcall_def)

lemma extcall_Ret: "f (world s) = (Ret x, w') \<Longrightarrow>
    extcall c f s = (Ret x, \<lparr>world = w', calls = calls s @ [c]\<rparr>)"
  by (simp add: extcall_def)

lemma extcall_returns: "fst (f (world s)) = Ret x \<Longrightarrow> \<exists>t. extcall c f s = (Ret x, t)"
  by (auto simp: extcall_def split: prod.splits)

subsection \<open>Effects that return\<close>

text \<open>An effect that returns from every state; such effects compose.\<close>

definition answers :: "('s, 'a) eff \<Rightarrow> bool" where
  "answers m = (\<forall>s. \<exists>x t. m s = (Ret x, t))"

lemma answers_retE [answering]: "answers (retE x)"
  by (simp add: answers_def retE_apply)

lemma answers_bindE [answering]: "answers m \<Longrightarrow> (\<And>x. answers (f x)) \<Longrightarrow> answers (bindE m f)"
  unfolding answers_def by (metis bindE_Ret)

lemma answers_extcall [answering]: "answers f \<Longrightarrow> answers (extcall c f)"
  unfolding answers_def extcall_def by (metis (mono_tags, lifting) case_prod_conv)

section \<open>Interface values\<close>

text \<open>
  A Go interface value is nil or holds a dynamic value. What the code asks about the dynamic
  value through package \<open>reflect\<close> is its kind and, for the kinds that have a nil, whether it
  is nil; \<open>dyn_val\<close> is the method table the interface gives access to.
\<close>

datatype reflect_kind =
    Invalid | Bool | Int | Int8 | Int16 | Int32 | Int64
  | Uint | Uint8 | Uint16 | Uint32 | Uint64 | Uintptr
  | Float32 | Float64 | Complex64 | Complex128
  | Array | Chan | Func | Interface | Map | Pointer | Slice | String | Struct | UnsafePointer

record 'a dyn =
  dyn_kind :: reflect_kind
  dyn_isNil :: bool
  dyn_val :: 'a

type_synonym 'a iface = "'a dyn option"

text \<open>The kinds of the \<open>case\<close> that precedes every \<open>IsNil\<close> call of the code.\<close>

definition nilable_kind :: "reflect_kind \<Rightarrow> bool" where
  "nilable_kind k = (k \<in> {Chan, Func, Interface, Map, Pointer, Slice})"

lemma nilable_kind_simps [simp]:
  "nilable_kind Pointer" "nilable_kind Func" "\<not> nilable_kind Struct" "\<not> nilable_kind String"
  by (simp_all add: nilable_kind_def)

section \<open>Lists\<close>

lemma list_all_filter_neg: "filter P xs = [] \<longleftrightarrow> list_all (\<lambda>x. \<not> P x) xs"
  by (simp add: filter_empty_conv list_all_iff)

lemma list_all_concat_map: "list_all P (concat (map f xs)) \<longleftrightarrow> list_all (\<lambda>x. list_all P (f x)) xs"
  by (induction xs) auto

lemma set_map_filter_iff: "x \<in> set (List.map_filter f xs) \<longleftrightarrow> (\<exists>y \<in> set xs. f y = Some x)"
  by (force simp: List.map_filter_def)

lemma size_list_member_less: "x \<in> set xs \<Longrightarrow> f x < size_list f xs"
  by (induction xs) auto

end
