(* ===== verification/Guard_Errors.thy ===== *)
theory Guard_Errors
  imports Guard_Prelude
begin

text \<open>
  Error values: \<^verbatim>\<open>internal/parser/parser.go\<close> (the parser's \<open>Error\<close>) and \<^verbatim>\<open>errors.go\<close>
  (\<open>Violation\<close>, \<open>ParseError\<close>, \<open>ErrInvalidPrepared\<close> and the translation between the two
  packages), with the part of the standard packages \<open>errors\<close> and \<open>fmt\<close> the module uses.
\<close>

section \<open>The error types of the module\<close>

text \<open>Both category types are Go string types.\<close>

type_synonym FailureCategory = string
type_synonym ParseErrorCategory = string

definition FailureSyntax :: FailureCategory where
  "FailureSyntax = ''syntax''"

definition ParseErrorUnknown :: ParseErrorCategory where
  "ParseErrorUnknown = ''unknown''"

definition ParseErrorSyntax :: ParseErrorCategory where
  "ParseErrorSyntax = ''syntax''"

record Error =
  error_category :: FailureCategory

record Violation =
  violation_ruleID :: string

record ParseError =
  parse_category :: ParseErrorCategory

text \<open>
  A non-nil \<open>error\<close> interface value by its dynamic type. Pointers to the module's structs may
  themselves be nil. \<open>Sentinel\<close> is a package-level \<open>errors.New\<close> value, told apart by its
  text; \<open>Wrapped\<close> is \<open>fmt.Errorf\<close> with one \<^verbatim>\<open>%w\<close> at the end of the format; \<open>Joined\<close> has an
  \<open>Unwrap() []error\<close>; \<open>CtxCanceled\<close> and \<open>CtxDeadline\<close> are the two values of package
  \<open>context\<close>; \<open>Foreign\<close> is any other error of code outside the module, by its text.
\<close>

datatype goerror =
    ParserErr "Error option"
  | ViolationErr "Violation option"
  | ParseErr "ParseError option"
  | Sentinel string
  | Wrapped string goerror
  | Joined "goerror list"
  | CtxCanceled
  | CtxDeadline
  | Foreign string

text \<open>An \<open>error\<close> variable: nil or a value.\<close>

type_synonym error = "goerror option"

definition ErrInvalidPrepared :: goerror where
  "ErrInvalidPrepared = Sentinel ''sqlguard: invalid prepared value''"

definition violationMessage :: string where
  "violationMessage = ''sql validation rejected by rule''"

definition parseErrorMessage :: string where
  "parseErrorMessage = ''sql validation parsing failed''"

definition parserErrorMessage :: string where
  "parserErrorMessage = ''postgresql parsing failed''"

lemmas category_defs = FailureSyntax_def ParseErrorUnknown_def ParseErrorSyntax_def

section \<open>Methods\<close>

definition Error_Category :: "Error option \<Rightarrow> FailureCategory" where
  "Error_Category e = (case e of None \<Rightarrow> '''' | Some err \<Rightarrow> error_category err)"

definition newViolation :: "string \<Rightarrow> Violation option" where
  "newViolation ruleID = Some \<lparr>violation_ruleID = ruleID\<rparr>"

definition Violation_RuleID :: "Violation option \<Rightarrow> string" where
  "Violation_RuleID e = (case e of None \<Rightarrow> '''' | Some v \<Rightarrow> violation_ruleID v)"

definition newParseError :: "ParseErrorCategory \<Rightarrow> ParseError option" where
  "newParseError category = Some \<lparr>parse_category = category\<rparr>"

definition ParseError_Category :: "ParseError option \<Rightarrow> ParseErrorCategory" where
  "ParseError_Category e = (case e of None \<Rightarrow> '''' | Some err \<Rightarrow> parse_category err)"

text \<open>Both messages are constants, whatever the error holds, and nil pointers have them too.\<close>

definition Violation_Error :: "Violation option \<Rightarrow> string" where
  "Violation_Error e = violationMessage"

definition ParseError_Error :: "ParseError option \<Rightarrow> string" where
  "ParseError_Error e = parseErrorMessage"

definition Error_Error :: "Error option \<Rightarrow> string" where
  "Error_Error e = parserErrorMessage"

text \<open>The texts of \<open>Error()\<close>; joined errors print one per line.\<close>

fun error_text :: "goerror \<Rightarrow> string"
  and error_texts :: "goerror list \<Rightarrow> string" where
  "error_text (ParserErr e) = Error_Error e"
| "error_text (ViolationErr e) = Violation_Error e"
| "error_text (ParseErr e) = ParseError_Error e"
| "error_text (Sentinel msg) = msg"
| "error_text (Wrapped prefix e) = prefix @ error_text e"
| "error_text (Joined es) = error_texts es"
| "error_text CtxCanceled = ''context canceled''"
| "error_text CtxDeadline = ''context deadline exceeded''"
| "error_text (Foreign msg) = msg"
| "error_texts [] = []"
| "error_texts [e] = error_text e"
| "error_texts (e # es) = error_text e @ [CHR 0x0A] @ error_texts es"

section \<open>Package errors\<close>

text \<open>
  \<open>errors.As\<close>: the first error of the unwrap tree, in pre-order, that the target's type
  accepts; \<open>sel\<close> is the type assertion to that target. \<open>errors.Is\<close> is the same search with
  equality to the target.
\<close>

fun errors_As :: "(goerror \<Rightarrow> 'a option) \<Rightarrow> goerror \<Rightarrow> 'a option"
  and errors_As_list :: "(goerror \<Rightarrow> 'a option) \<Rightarrow> goerror list \<Rightarrow> 'a option" where
  "errors_As sel e =
     (case sel e of
        Some x \<Rightarrow> Some x
      | None \<Rightarrow>
          (case e of
             Wrapped _ e' \<Rightarrow> errors_As sel e'
           | Joined es \<Rightarrow> errors_As_list sel es
           | _ \<Rightarrow> None))"
| "errors_As_list sel [] = None"
| "errors_As_list sel (e # es) =
     (case errors_As sel e of Some x \<Rightarrow> Some x | None \<Rightarrow> errors_As_list sel es)"

definition errors_Is :: "goerror \<Rightarrow> goerror \<Rightarrow> bool" where
  "errors_Is e target = (errors_As (\<lambda>x. if x = target then Some () else None) e \<noteq> None)"

definition as_ParserError :: "goerror \<Rightarrow> Error option option" where
  "as_ParserError e = (case e of ParserErr p \<Rightarrow> Some p | _ \<Rightarrow> None)"

definition as_Violation :: "goerror \<Rightarrow> Violation option option" where
  "as_Violation e = (case e of ViolationErr p \<Rightarrow> Some p | _ \<Rightarrow> None)"

definition as_ParseError :: "goerror \<Rightarrow> ParseError option option" where
  "as_ParseError e = (case e of ParseErr p \<Rightarrow> Some p | _ \<Rightarrow> None)"

section \<open>The translation\<close>

definition translateParserError :: "error \<Rightarrow> error" where
  "translateParserError source =
     (case source of
        None \<Rightarrow> None
      | Some src \<Rightarrow>
          let category =
            (case errors_As as_ParserError src of
               Some parserError \<Rightarrow>
                 (if Error_Category parserError = FailureSyntax
                  then ParseErrorSyntax else ParseErrorUnknown)
             | None \<Rightarrow> ParseErrorUnknown)
          in Some (ParseErr (newParseError category)))"

end
