(* ===== verification/Parser_Node.thy ===== *)
theory Parser_Node
  imports Guard_Errors
begin

text \<open>
  The parser-neutral syntax tree, \<^verbatim>\<open>internal/parser/node.go\<close> and the \<open>Result\<close> of
  \<^verbatim>\<open>internal/parser/parser.go\<close>: the immutable nodes, fields and tagged values, their
  accessors, the tagged-union invariant of values and the first-match law of field lookup.
  A pointer \<open>*Node\<close> is a \<open>Node option\<close>, nil being \<open>None\<close>. Go strings are byte strings
  (\<open>string\<close>), a \<open>float64\<close> is carried as its 64-bit pattern since the tree never computes
  with it. The accessors return copies of their slices in Go; here a tree is a value and a copy
  is the value itself, which \<open>Parser_Store\<close> justifies.
\<close>

section \<open>Data\<close>

text \<open>\<open>type ValueKind uint8\<close>, numbered by \<open>iota\<close> in this order.\<close>

datatype ValueKind =
    ValueInvalid | ValueBool | ValueInt | ValueUint | ValueFloat
  | ValueString | ValueBytes | ValueEnum | ValueNode | ValueList

type_synonym Kind = string

text \<open>\<open>Value\<close> keeps one Go struct member per payload, all but one of them zero.\<close>

datatype Node =
    Node (node_kind: Kind) (node_fields: "Field list")
and Field =
    Field (field_name: string) (field_value: Value)
and Value =
    Value (value_kind: ValueKind) (boolValue: bool) (intValue: "64 word") (uintValue: "64 word")
      (floatValue: "64 word") (stringValue: string) (bytesValue: "8 word list")
      (nodeValue: "Node option") (listValue: "Value list")

text \<open>The Go zero value \<open>Value{}\<close>, and the composite literals that set one payload.\<close>

definition zeroValue :: Value where
  "zeroValue = Value ValueInvalid False 0 0 0 [] [] None []"

definition boolVal :: "bool \<Rightarrow> Value" where
  "boolVal b = Value ValueBool b 0 0 0 [] [] None []"

definition intVal :: "64 word \<Rightarrow> Value" where
  "intVal i = Value ValueInt False i 0 0 [] [] None []"

definition uintVal :: "64 word \<Rightarrow> Value" where
  "uintVal u = Value ValueUint False 0 u 0 [] [] None []"

definition floatVal :: "64 word \<Rightarrow> Value" where
  "floatVal f = Value ValueFloat False 0 0 f [] [] None []"

definition stringVal :: "string \<Rightarrow> Value" where
  "stringVal s = Value ValueString False 0 0 0 s [] None []"

definition bytesVal :: "8 word list \<Rightarrow> Value" where
  "bytesVal bs = Value ValueBytes False 0 0 0 [] bs None []"

definition enumVal :: "string \<Rightarrow> Value" where
  "enumVal s = Value ValueEnum False 0 0 0 s [] None []"

definition nodeVal :: "Node option \<Rightarrow> Value" where
  "nodeVal n = Value ValueNode False 0 0 0 [] [] n []"

definition listVal :: "Value list \<Rightarrow> Value" where
  "listVal vs = Value ValueList False 0 0 0 [] [] None vs"

lemmas value_lits = zeroValue_def boolVal_def intVal_def uintVal_def floatVal_def stringVal_def
  bytesVal_def enumVal_def nodeVal_def listVal_def

text \<open>\<open>Result\<close> owns the top-level statements; \<open>*Result\<close> may be nil.\<close>

record Result =
  result_statements :: "Node option list"

section \<open>Accessors\<close>

definition Field_Name :: "Field \<Rightarrow> string" where
  "Field_Name f = field_name f"

definition Field_Value :: "Field \<Rightarrow> Value" where
  "Field_Value f = field_value f"

definition Node_Kind :: "Node option \<Rightarrow> Kind" where
  "Node_Kind n = (case n of None \<Rightarrow> '''' | Some nd \<Rightarrow> node_kind nd)"

fun find_field :: "Field list \<Rightarrow> string \<Rightarrow> Value \<times> bool" where
  "find_field [] name = (zeroValue, False)"
| "find_field (field # rest) name =
     (if field_name field = name then (field_value field, True) else find_field rest name)"

definition Node_Field :: "Node option \<Rightarrow> string \<Rightarrow> Value \<times> bool" where
  "Node_Field n name =
     (case n of None \<Rightarrow> (zeroValue, False) | Some nd \<Rightarrow> find_field (node_fields nd) name)"

definition Node_Fields :: "Node option \<Rightarrow> Field list" where
  "Node_Fields n = (case n of None \<Rightarrow> [] | Some nd \<Rightarrow> node_fields nd)"

definition Value_Kind :: "Value \<Rightarrow> ValueKind" where
  "Value_Kind v = value_kind v"

definition Value_Bool :: "Value \<Rightarrow> bool \<times> bool" where
  "Value_Bool v = (boolValue v, value_kind v = ValueBool)"

definition Value_Int :: "Value \<Rightarrow> 64 word \<times> bool" where
  "Value_Int v = (intValue v, value_kind v = ValueInt)"

definition Value_Uint :: "Value \<Rightarrow> 64 word \<times> bool" where
  "Value_Uint v = (uintValue v, value_kind v = ValueUint)"

definition Value_Float :: "Value \<Rightarrow> 64 word \<times> bool" where
  "Value_Float v = (floatValue v, value_kind v = ValueFloat)"

definition Value_String :: "Value \<Rightarrow> string \<times> bool" where
  "Value_String v = (stringValue v, value_kind v = ValueString)"

definition Value_Bytes :: "Value \<Rightarrow> 8 word list \<times> bool" where
  "Value_Bytes v = (if value_kind v \<noteq> ValueBytes then ([], False) else (bytesValue v, True))"

definition Value_Enum :: "Value \<Rightarrow> string \<times> bool" where
  "Value_Enum v = (stringValue v, value_kind v = ValueEnum)"

definition Value_Node :: "Value \<Rightarrow> Node option \<times> bool" where
  "Value_Node v = (nodeValue v, value_kind v = ValueNode)"

definition Value_List :: "Value \<Rightarrow> Value list \<times> bool" where
  "Value_List v = (if value_kind v \<noteq> ValueList then ([], False) else (listValue v, True))"

definition Result_Statements :: "Result option \<Rightarrow> Node option list" where
  "Result_Statements r = (case r of None \<Rightarrow> [] | Some res \<Rightarrow> result_statements res)"

lemmas node_accessors [go_defs] =
  Field_Name_def Field_Value_def Node_Kind_def Node_Field_def Node_Fields_def Value_Kind_def
  Value_Bool_def Value_Int_def Value_Uint_def Value_Float_def Value_String_def Value_Bytes_def
  Value_Enum_def Value_Node_def Value_List_def Result_Statements_def

section \<open>Field lookup\<close>

text \<open>The reading of a node as a finite map from field names: the first field of a name wins.\<close>

definition field_map :: "Field list \<Rightarrow> string \<rightharpoonup> Value" where
  "field_map fs = map_of (map (\<lambda>f. (field_name f, field_value f)) fs)"

lemma find_field_map:
  "find_field fs name =
     (case field_map fs name of None \<Rightarrow> (zeroValue, False) | Some v \<Rightarrow> (v, True))"
  by (induction fs) (auto simp: field_map_def)

lemma find_field_ok: "find_field fs name = (v, True) \<Longrightarrow> \<exists>f \<in> set fs. field_name f = name \<and> field_value f = v"
  by (induction fs) (auto split: if_splits)

lemma find_field_missing: "snd (find_field fs name) \<longleftrightarrow> name \<in> field_name ` set fs"
  by (induction fs) auto

lemma find_field_filter_map:
  assumes "distinct (map field_name fs)" and "f \<in> set fs"
  shows "find_field fs (field_name f) = (field_value f, True)"
  using assms by (induction fs) (auto simp: rev_image_eqI)

section \<open>Sizes\<close>

text \<open>Every accessor that reaches into a tree returns something smaller.\<close>

lemma size_Field_value: "size (field_value f) < size f"
  by (cases f) simp

lemma size_field_value: "f \<in> set fs \<Longrightarrow> size (field_value f) < size_list size fs"
  by (rule less_trans [OF size_Field_value]) (rule size_list_member_less [where f = size])

lemma size_find_field: "find_field fs name = (v, True) \<Longrightarrow> size v < size_list size fs"
  by (auto dest!: find_field_ok intro: size_field_value)

lemma size_Node_Field: "Node_Field (Some n) name = (v, True) \<Longrightarrow> size v < size n"
  by (cases n) (auto simp: Node_Field_def dest!: size_find_field)

lemma size_Value_Node: "Value_Node v = (Some n, True) \<Longrightarrow> size n < size v"
  by (cases v) (auto simp: Value_Node_def)

lemma size_Value_List: "Value_List v = (vs, True) \<Longrightarrow> size_list size vs < size v"
  by (cases v) (auto simp: Value_List_def split: if_splits)

lemma size_Node_Fields: "size_list size (Node_Fields (Some n)) < size n"
  by (cases n) (auto simp: Node_Fields_def)

lemmas tree_sizes = size_Node_Field size_Value_Node size_Value_List size_Node_Fields
  size_Field_value

section \<open>The tagged union\<close>

text \<open>
  A value is well formed when every payload its kind does not select is zero; a node is well
  formed when all values below it are.
\<close>

definition tagged :: "Value \<Rightarrow> bool" where
  "tagged v =
     ((value_kind v \<noteq> ValueBool \<longrightarrow> \<not> boolValue v) \<and>
      (value_kind v \<noteq> ValueInt \<longrightarrow> intValue v = 0) \<and>
      (value_kind v \<noteq> ValueUint \<longrightarrow> uintValue v = 0) \<and>
      (value_kind v \<noteq> ValueFloat \<longrightarrow> floatValue v = 0) \<and>
      (value_kind v \<notin> {ValueString, ValueEnum} \<longrightarrow> stringValue v = []) \<and>
      (value_kind v \<noteq> ValueBytes \<longrightarrow> bytesValue v = []) \<and>
      (value_kind v \<noteq> ValueNode \<longrightarrow> nodeValue v = None) \<and>
      (value_kind v \<noteq> ValueList \<longrightarrow> listValue v = []))"

primrec wf_Node :: "Node \<Rightarrow> bool"
  and wf_Field :: "Field \<Rightarrow> bool"
  and wf_Value :: "Value \<Rightarrow> bool" where
  "wf_Node (Node k fs) = list_all wf_Field fs"
| "wf_Field (Field name v) = wf_Value v"
| "wf_Value (Value k b i u f s bs n vs) =
     (tagged (Value k b i u f s bs n vs) \<and> pred_option wf_Node n \<and> list_all wf_Value vs)"

lemma wf_value_lits [simp]:
  "wf_Value zeroValue" "wf_Value (boolVal b)" "wf_Value (intVal i)" "wf_Value (uintVal u)"
  "wf_Value (floatVal f)" "wf_Value (stringVal s)" "wf_Value (bytesVal bs)" "wf_Value (enumVal s)"
  "wf_Value (nodeVal n) = pred_option wf_Node n" "wf_Value (listVal vs) = list_all wf_Value vs"
  by (simp_all add: value_lits tagged_def)

lemma wf_Value_tagged: "wf_Value v \<Longrightarrow> tagged v"
  by (cases v) simp

text \<open>The kinds of a list of values, read back by the accessors.\<close>

lemma value_lit_accessors [simp]:
  "Value_Node (nodeVal n) = (n, True)" "Value_List (listVal vs) = (vs, True)"
  "Value_Enum (enumVal s) = (s, True)" "Value_String (stringVal s) = (s, True)"
  "Value_List (nodeVal n) = ([], False)" "Value_Node (listVal vs) = (None, False)"
  "Value_Node (enumVal s) = (None, False)" "Value_Node (stringVal s) = (None, False)"
  "Value_Node (intVal i) = (None, False)" "Value_Node (boolVal b) = (None, False)"
  "Value_Node zeroValue = (None, False)" "Value_List (enumVal s) = ([], False)"
  "Value_List (stringVal s) = ([], False)" "Value_List (intVal i) = ([], False)"
  "Value_List (boolVal b) = ([], False)"
  by (simp_all add: value_lits go_defs)

end
