(* ===== verification/Parser_Traversal.thy ===== *)
theory Parser_Traversal
  imports Parser_Node
begin

text \<open>
  The statement traversal of \<^verbatim>\<open>internal/parser/traversal.go\<close>: \<open>nodeField\<close>, \<open>appendStatement\<close>
  and \<open>StatementSequence\<close>. The Go recursion appends to one slice; the model threads that slice.
  The theory shows that the accumulator computes a pre-order of the tree of statement-bearing
  CTE declarations and that exactly the statements reachable in that tree are listed.
\<close>

section \<open>The code\<close>

definition nodeField :: "Node option \<Rightarrow> string \<Rightarrow> Node option" where
  "nodeField node name =
     (case Node_Field node name of
        (value, ok) \<Rightarrow>
          if \<not> ok then None
          else (case Value_Node value of (child, ok) \<Rightarrow> if \<not> ok then None else child))"

lemma nodeField_Some:
  assumes "nodeField (Some n) name = Some m"
  obtains v where "Node_Field (Some n) name = (v, True)" and "Value_Node v = (Some m, True)"
  using assms by (auto simp: nodeField_def split: prod.splits if_splits)

lemma nodeField_None [simp]: "nodeField None name = None"
  by (simp add: nodeField_def Node_Field_def)

lemma size_nodeField: "nodeField (Some n) name = Some m \<Longrightarrow> size m < size n"
  by (metis nodeField_Some size_Node_Field size_Value_Node less_trans)

text \<open>
  \<open>appendCTEs\<close> is the \<open>for\<close> loop over the CTE declarations; the conditionals before it are the
  early returns of \<open>appendStatement\<close>.
\<close>

function appendStatement :: "Node option list \<Rightarrow> Node option \<Rightarrow> Node option list"
  and appendCTEs :: "Node option list \<Rightarrow> Value list \<Rightarrow> Node option list" where
  "appendStatement sequence statement =
     (case statement of
        None \<Rightarrow> sequence
      | Some st \<Rightarrow>
          let sequence = sequence @ [statement];
              withClause = nodeField statement ''with_clause''
          in if withClause = None then sequence
             else case Node_Field withClause ''ctes'' of
               (ctes, ok) \<Rightarrow>
                 if \<not> ok then sequence
                 else case Value_List ctes of
                   (cteValues, ok) \<Rightarrow>
                     if \<not> ok then sequence else appendCTEs sequence cteValues)"
| "appendCTEs sequence [] = sequence"
| "appendCTEs sequence (cteValue # rest) =
     (case Value_Node cteValue of
        (cte, ok) \<Rightarrow>
          if \<not> ok then appendCTEs sequence rest
          else appendCTEs (appendStatement sequence (nodeField cte ''ctequery'')) rest)"
  by pat_completeness auto
termination
proof (relation "measure (case_sum (\<lambda>(_, st). case st of None \<Rightarrow> 0 | Some n \<Rightarrow> size n)
                                   (\<lambda>(_, vs). size_list size vs))", goal_cases)
  case 1
  then show ?case by simp
next
  case (2 sequence statement st sequence' withClause ctes ok cteValues ok')
  then obtain w where w: "nodeField (Some st) ''with_clause'' = Some w" and "withClause = Some w"
    by auto
  with 2 have "size_list size cteValues < size ctes" and "size ctes < size w"
    by (auto dest!: size_Value_List [OF sym] size_Node_Field [OF sym])
  with size_nodeField [OF w] 2 show ?case by simp
next
  case (4 sequence cteValue rest cte ok)
  show ?case
  proof (cases "nodeField cte ''ctequery''")
    case (Some q)
    with 4 obtain c where "cte = Some c" "size q < size c"
      by (cases cte) (auto dest: size_nodeField)
    with 4 Some size_Value_Node [of cteValue c] show ?thesis by auto
  qed simp
qed auto

fun appendStatements :: "Node option list \<Rightarrow> Node option list \<Rightarrow> Node option list" where
  "appendStatements sequence [] = sequence"
| "appendStatements sequence (statement # rest) =
     appendStatements (appendStatement sequence statement) rest"

definition StatementSequence :: "Result option \<Rightarrow> Node option list" where
  "StatementSequence result =
     (case result of None \<Rightarrow> [] | Some r \<Rightarrow> appendStatements [] (result_statements r))"

declare appendStatement.simps [simp del]

section \<open>The tree of statements\<close>

text \<open>
  The specification: the statements a list of CTE declarations stores, the direct
  sub-statements of a statement, and their pre-order.
\<close>

definition cte_query :: "Value \<Rightarrow> Node option" where
  "cte_query v = (case Value_Node v of (cte, ok) \<Rightarrow> if ok then nodeField cte ''ctequery'' else None)"

definition subqueries :: "Node \<Rightarrow> Node list" where
  "subqueries n =
     (case nodeField (Some n) ''with_clause'' of
        None \<Rightarrow> []
      | Some w \<Rightarrow>
          (case Node_Field (Some w) ''ctes'' of
             (ctes, ok) \<Rightarrow> if ok then List.map_filter cte_query (fst (Value_List ctes)) else []))"

lemma size_cte_query: "cte_query v = Some q \<Longrightarrow> size q < size v"
proof -
  assume q: "cte_query v = Some q"
  then obtain c where c: "Value_Node v = (Some c, True)" "nodeField (Some c) ''ctequery'' = Some q"
    by (auto simp: cte_query_def split: prod.splits if_splits) (metis nodeField_None not_None_eq option.discI)
  then show ?thesis using size_nodeField size_Value_Node less_trans by metis
qed

lemma subqueries_elem:
  assumes "m \<in> set (subqueries n)"
  obtains w ctes vs v where "nodeField (Some n) ''with_clause'' = Some w"
    and "Node_Field (Some w) ''ctes'' = (ctes, True)" and "Value_List ctes = (vs, True)"
    and "v \<in> set vs" and "cte_query v = Some m"
proof -
  from assms obtain w where w: "nodeField (Some n) ''with_clause'' = Some w"
    by (cases "nodeField (Some n) ''with_clause''") (auto simp: subqueries_def)
  obtain ctes ok where ctes: "Node_Field (Some w) ''ctes'' = (ctes, ok)" by fastforce
  obtain vs ok' where vs: "Value_List ctes = (vs, ok')" by fastforce
  from assms w ctes vs have ok and mem: "m \<in> set (List.map_filter cte_query vs)"
    by (auto simp: subqueries_def split: if_splits)
  moreover from vs mem have ok' by (auto simp: Value_List_def List.map_filter_def split: if_splits)
  ultimately show thesis using that w ctes vs by (auto simp: set_map_filter_iff)
qed

lemma subqueries_smaller: "m \<in> set (subqueries n) \<Longrightarrow> size m < size n"
proof (erule subqueries_elem)
  fix w ctes vs v
  assume w: "nodeField (Some n) ''with_clause'' = Some w"
    and ctes: "Node_Field (Some w) ''ctes'' = (ctes, True)"
    and vs: "Value_List ctes = (vs, True)" and v: "v \<in> set vs" "cte_query v = Some m"
  have "size m < size_list size vs"
    using size_cte_query [OF v(2)] size_list_member_less [OF v(1), of size] by simp
  with size_Value_List [OF vs] size_Node_Field [OF ctes] size_nodeField [OF w]
  show "size m < size n" by simp
qed

function stmtTree :: "Node \<Rightarrow> Node list" where
  "stmtTree n = n # concat (map stmtTree (subqueries n))"
  by pat_completeness auto
termination
  by (relation "measure size") (auto simp: subqueries_smaller)

declare stmtTree.simps [simp del]

lemma stmtTree_root: "n \<in> set (stmtTree n)"
  by (simp add: stmtTree.simps [of n])

text \<open>The accumulator computes the pre-order.\<close>

lemma append_is_preorder:
  "appendStatement sequence st = sequence @ (case st of None \<Rightarrow> [] | Some n \<Rightarrow> map Some (stmtTree n))"
  "appendCTEs sequence vs = sequence @ map Some (concat (map stmtTree (List.map_filter cte_query vs)))"
proof (induction sequence st and sequence vs rule: appendStatement_appendCTEs.induct)
  case (1 sequence st)
  show ?case
  proof (cases st)
    case None
    then show ?thesis by (simp add: appendStatement.simps)
  next
    case (Some n)
    with 1 show ?thesis
      by (auto simp: appendStatement.simps [of sequence] stmtTree.simps [of n] subqueries_def
          Let_def Value_List_def List.map_filter_def split: prod.splits option.splits)
  qed
next
  case (2 sequence)
  then show ?case by (simp add: List.map_filter_def)
next
  case (3 sequence v rest)
  then show ?case
    by (auto simp: cte_query_def List.map_filter_def split: prod.splits option.splits)
qed

lemma appendStatements_tree:
  "appendStatements sequence sts =
     sequence @ map Some (concat (map stmtTree (List.map_filter id sts)))"
  by (induction sts arbitrary: sequence)
     (auto simp: append_is_preorder List.map_filter_def split: option.splits)

lemma StatementSequence_tree:
  "StatementSequence (Some r) =
     map Some (concat (map stmtTree (List.map_filter id (result_statements r))))"
  by (simp add: StatementSequence_def appendStatements_tree)

lemma StatementSequence_nil [simp]: "StatementSequence None = []"
  by (simp add: StatementSequence_def)

section \<open>Completeness\<close>

text \<open>
  A statement is covered when it is top-level, or the query of a CTE declared by a covered
  statement.
\<close>

inductive covered :: "Result \<Rightarrow> Node \<Rightarrow> bool" for r :: Result where
  top: "Some n \<in> set (result_statements r) \<Longrightarrow> covered r n"
| cte: "covered r n \<Longrightarrow> m \<in> set (subqueries n) \<Longrightarrow> covered r m"

lemma stmtTree_closed: "m \<in> set (stmtTree n) \<Longrightarrow> q \<in> set (subqueries m) \<Longrightarrow> q \<in> set (stmtTree n)"
proof (induction n rule: stmtTree.induct)
  case (1 n)
  show ?case
  proof (cases "m = n")
    case True
    with 1 stmtTree_root show ?thesis by (auto simp: stmtTree.simps [of n])
  next
    case False
    with 1 show ?thesis by (auto simp: stmtTree.simps [of n])
  qed
qed

lemma stmtTree_covered: "covered r n \<Longrightarrow> m \<in> set (stmtTree n) \<Longrightarrow> covered r m"
proof (induction n rule: stmtTree.induct)
  case (1 n)
  from 1(3) consider "m = n" | q where "q \<in> set (subqueries n)" "m \<in> set (stmtTree q)"
    by (auto simp: stmtTree.simps [of n])
  then show ?case
    by cases (use 1 covered.cte in blast)+
qed

lemma mem_StatementSequence:
  "Some m \<in> set (StatementSequence (Some r)) \<longleftrightarrow> (\<exists>n. Some n \<in> set (result_statements r) \<and> m \<in> set (stmtTree n))"
  by (force simp: StatementSequence_tree set_map_filter_iff)

lemma covered_iff_listed: "covered r m \<longleftrightarrow> Some m \<in> set (StatementSequence (Some r))"
proof
  assume "covered r m"
  then show "Some m \<in> set (StatementSequence (Some r))"
    by induction (auto simp: mem_StatementSequence intro: stmtTree_root stmtTree_closed)
next
  assume "Some m \<in> set (StatementSequence (Some r))"
  then show "covered r m"
    by (auto simp: mem_StatementSequence intro: stmtTree_covered covered.top)
qed

section \<open>The length of a traversal\<close>

lemma sum_cte_queries:
  "sum_list (map size (List.map_filter cte_query vs)) \<le> size_list size vs"
proof (induction vs)
  case (Cons v vs)
  then show ?case
    using size_cte_query [of v] by (cases "cte_query v") (auto simp: map_filter_simps)
qed (simp add: map_filter_simps)

lemma subqueries_sum: "sum_list (map size (subqueries n)) < size n"
proof (cases "subqueries n")
  case Nil
  then show ?thesis by (cases n) simp
next
  case (Cons m ms)
  then have "m \<in> set (subqueries n)" by simp
  then obtain w ctes vs v where w: "nodeField (Some n) ''with_clause'' = Some w"
      and ctes: "Node_Field (Some w) ''ctes'' = (ctes, True)" and vs: "Value_List ctes = (vs, True)"
    by (rule subqueries_elem)
  have "sum_list (map size (subqueries n)) \<le> size_list size vs"
    using sum_cte_queries [of vs] by (simp add: subqueries_def w ctes vs)
  with size_Value_List [OF vs] size_Node_Field [OF ctes] size_nodeField [OF w] show ?thesis by simp
qed

lemma length_stmtTree: "length (stmtTree n) \<le> size n"
proof (induction n rule: stmtTree.induct)
  case (1 n)
  have "length (concat (map stmtTree (subqueries n))) \<le> sum_list (map size (subqueries n))"
    using 1 by (simp add: length_concat comp_def) (rule sum_list_mono, simp)
  with subqueries_sum [of n] show ?case by (simp add: stmtTree.simps [of n])
qed

definition treeSize :: "Result \<Rightarrow> nat" where
  "treeSize r = sum_list (map (\<lambda>p. case p of None \<Rightarrow> 0 | Some n \<Rightarrow> size n) (result_statements r))"

lemma length_StatementSequence: "length (StatementSequence (Some r)) \<le> treeSize r"
proof -
  have "length (concat (map stmtTree (List.map_filter id ps))) \<le>
      sum_list (map (\<lambda>p. case p of None \<Rightarrow> 0 | Some n \<Rightarrow> size n) ps)" for ps
    by (induction ps) (auto simp: List.map_filter_def intro: add_mono length_stmtTree split: option.splits)
  then show ?thesis by (simp add: StatementSequence_tree treeSize_def)
qed

section \<open>Properties\<close>

text \<open>
  C7: the traversal is ordered, complete and exact. The statements a validation inspects are the
  pre-order of the forest of statements: every top-level statement followed by the statements
  of its CTE declarations, recursively, nil entries left out. So a statement is inspected if and
  only if it is a top-level statement or the query of a CTE declared by an inspected statement.
\<close>

theorem traversal_covers:
  "StatementSequence (Some r) = map Some (concat (map stmtTree (List.map_filter id (result_statements r)))) \<and>
   (Some m \<in> set (StatementSequence (Some r)) \<longleftrightarrow> covered r m)"
  using StatementSequence_tree covered_iff_listed by blast

end
