(* ===== verification/Guard_Statement.thy ===== *)
theory Guard_Statement
  imports Parser_Traversal
begin

text \<open>
  The read-only statement view that rules receive, \<^verbatim>\<open>statement.go\<close>: \<open>Statement\<close> and its
  \<open>Node\<close> (here \<open>GuardNode\<close>, since the parser's tree has a \<open>Node\<close> too), the typed field
  accessors and \<open>Walk\<close>. A visitor is a closure of the caller: an effect on a state of its own.
  The theory relates \<open>Walk\<close> to the pre-order of the tree, the missing children included.
\<close>

section \<open>The code\<close>

record GuardNode =
  gnode :: "Node option"

record Statement =
  stmt_root :: GuardNode

text \<open>The zero value \<open>Node{}\<close>.\<close>

definition zeroNode :: GuardNode where
  "zeroNode = \<lparr>gnode = None\<rparr>"

definition newStatement :: "Node option \<Rightarrow> Statement" where
  "newStatement root = \<lparr>stmt_root = \<lparr>gnode = root\<rparr>\<rparr>"

definition GuardNode_Kind :: "GuardNode \<Rightarrow> Kind" where
  "GuardNode_Kind n = Node_Kind (gnode n)"

definition Statement_Kind :: "Statement \<Rightarrow> Kind" where
  "Statement_Kind s = GuardNode_Kind (stmt_root s)"

definition Statement_Root :: "Statement \<Rightarrow> GuardNode" where
  "Statement_Root s = stmt_root s"

definition GuardNode_value :: "GuardNode \<Rightarrow> string \<Rightarrow> Value \<times> bool" where
  "GuardNode_value n name =
     (if gnode n = None then (zeroValue, False) else Node_Field (gnode n) name)"

definition GuardNode_Child :: "GuardNode \<Rightarrow> string \<Rightarrow> GuardNode \<times> bool" where
  "GuardNode_Child n name =
     (case GuardNode_value n name of
        (value, ok) \<Rightarrow>
          if \<not> ok then (zeroNode, False)
          else (case Value_Node value of
                  (child, ok) \<Rightarrow> if \<not> ok then (zeroNode, False) else (\<lparr>gnode = child\<rparr>, True)))"

text \<open>The loop of \<open>Children\<close> over the items of the list field.\<close>

fun collectChildren :: "GuardNode list \<Rightarrow> Value list \<Rightarrow> GuardNode list" where
  "collectChildren children [] = children"
| "collectChildren children (item # rest) =
     (case Value_Node item of
        (child, isNode) \<Rightarrow>
          collectChildren (if isNode then children @ [\<lparr>gnode = child\<rparr>] else children) rest)"

definition GuardNode_Children :: "GuardNode \<Rightarrow> string \<Rightarrow> GuardNode list" where
  "GuardNode_Children n name =
     (case GuardNode_value n name of
        (value, ok) \<Rightarrow>
          if \<not> ok then []
          else (case Value_List value of
                  (values, ok) \<Rightarrow> if \<not> ok then [] else collectChildren [] values))"

definition GuardNode_Bool :: "GuardNode \<Rightarrow> string \<Rightarrow> bool \<times> bool" where
  "GuardNode_Bool n name =
     (case GuardNode_value n name of (value, ok) \<Rightarrow> if \<not> ok then (False, False) else Value_Bool value)"

definition GuardNode_Int :: "GuardNode \<Rightarrow> string \<Rightarrow> 64 word \<times> bool" where
  "GuardNode_Int n name =
     (case GuardNode_value n name of (value, ok) \<Rightarrow> if \<not> ok then (0, False) else Value_Int value)"

definition GuardNode_Uint :: "GuardNode \<Rightarrow> string \<Rightarrow> 64 word \<times> bool" where
  "GuardNode_Uint n name =
     (case GuardNode_value n name of (value, ok) \<Rightarrow> if \<not> ok then (0, False) else Value_Uint value)"

definition GuardNode_Float :: "GuardNode \<Rightarrow> string \<Rightarrow> 64 word \<times> bool" where
  "GuardNode_Float n name =
     (case GuardNode_value n name of (value, ok) \<Rightarrow> if \<not> ok then (0, False) else Value_Float value)"

definition GuardNode_String :: "GuardNode \<Rightarrow> string \<Rightarrow> string \<times> bool" where
  "GuardNode_String n name =
     (case GuardNode_value n name of (value, ok) \<Rightarrow> if \<not> ok then ('''', False) else Value_String value)"

definition GuardNode_Bytes :: "GuardNode \<Rightarrow> string \<Rightarrow> 8 word list \<times> bool" where
  "GuardNode_Bytes n name =
     (case GuardNode_value n name of (value, ok) \<Rightarrow> if \<not> ok then ([], False) else Value_Bytes value)"

definition GuardNode_Enum :: "GuardNode \<Rightarrow> string \<Rightarrow> string \<times> bool" where
  "GuardNode_Enum n name =
     (case GuardNode_value n name of (value, ok) \<Rightarrow> if \<not> ok then ('''', False) else Value_Enum value)"

text \<open>
  \<open>walkNode\<close> with its two loops: over the fields of the node, and over the items of a list
  field. The boolean result tells the caller whether to go on.
\<close>

type_synonym 's visitor = "GuardNode \<Rightarrow> ('s, bool) eff"

function walkNode :: "'s visitor \<Rightarrow> Node option \<Rightarrow> ('s, bool) eff"
  and walkFields :: "'s visitor \<Rightarrow> Field list \<Rightarrow> ('s, bool) eff"
  and walkItems :: "'s visitor \<Rightarrow> Value list \<Rightarrow> ('s, bool) eff" where
  "walkNode visit node =
     (case node of
        None \<Rightarrow> retE False
      | Some nd \<Rightarrow>
          bindE (visit \<lparr>gnode = node\<rparr>)
            (\<lambda>go. if \<not> go then retE False else walkFields visit (node_fields nd)))"
| "walkFields visit [] = retE True"
| "walkFields visit (field # rest) =
     (case Value_Node (field_value field) of
        (child, ok) \<Rightarrow>
          if ok
          then bindE (walkNode visit child) (\<lambda>go. if \<not> go then retE False else walkFields visit rest)
          else (case Value_List (field_value field) of
                  (values, ok) \<Rightarrow>
                    if \<not> ok then walkFields visit rest
                    else bindE (walkItems visit values)
                           (\<lambda>go. if \<not> go then retE False else walkFields visit rest)))"
| "walkItems visit [] = retE True"
| "walkItems visit (item # rest) =
     (case Value_Node item of
        (child, isNode) \<Rightarrow>
          if isNode
          then bindE (walkNode visit child) (\<lambda>go. if \<not> go then retE False else walkItems visit rest)
          else walkItems visit rest)"
  by pat_completeness auto
termination
proof (relation "measure (\<lambda>x. case x of
          Inl (_, n) \<Rightarrow> (case n of None \<Rightarrow> 0 | Some nd \<Rightarrow> size nd)
        | Inr (Inl (_, fs)) \<Rightarrow> size_list size fs
        | Inr (Inr (_, vs)) \<Rightarrow> size_list size vs)", goal_cases)
  case 1
  then show ?case by simp
next
  case (2 visit node nd go)
  then show ?case using size_Node_Fields [of nd] by (simp add: Node_Fields_def)
next
  case (3 visit field rest child ok)
  then show ?case using size_Field_value [of field]
    by (cases child) (auto dest!: size_Value_Node [OF sym])
next
  case (6 visit field rest child ok items ok')
  then show ?case using size_Field_value [of field]
    by (auto dest!: size_Value_List [OF sym])
next
  case (8 visit item rest child isNode)
  then show ?case by (cases child) (auto dest!: size_Value_Node [OF sym])
qed auto

declare walkNode.simps [simp del]

text \<open>A nil visitor is \<open>None\<close>; \<open>Walk\<close> discards the result of \<open>walkNode\<close>.\<close>

definition GuardNode_Walk :: "GuardNode \<Rightarrow> 's visitor option \<Rightarrow> ('s, unit) eff" where
  "GuardNode_Walk n visit =
     (if gnode n = None then retE ()
      else case visit of
             None \<Rightarrow> retE ()
           | Some v \<Rightarrow> bindE (walkNode v (gnode n)) (\<lambda>_. retE ()))"

definition Statement_Walk :: "Statement \<Rightarrow> 's visitor option \<Rightarrow> ('s, unit) eff" where
  "Statement_Walk s visit = GuardNode_Walk (stmt_root s) visit"

lemmas facade_defs [go_defs] =
  GuardNode_Kind_def Statement_Kind_def Statement_Root_def GuardNode_value_def GuardNode_Child_def
  GuardNode_Children_def GuardNode_Enum_def newStatement_def zeroNode_def

section \<open>The order of a walk\<close>

text \<open>
  The children a node offers to a walk, in field order: a field that holds a node, or the node
  items of a list field. A child is a pointer and may be nil.
\<close>

definition nodeItems :: "Value list \<Rightarrow> Node option list" where
  "nodeItems vs = map (\<lambda>v. fst (Value_Node v)) (filter (\<lambda>v. snd (Value_Node v)) vs)"

definition fieldChildren :: "Field \<Rightarrow> Node option list" where
  "fieldChildren f =
     (case Value_Node (field_value f) of
        (child, ok) \<Rightarrow> if ok then [child] else nodeItems (fst (Value_List (field_value f))))"

definition nodeChildren :: "Node \<Rightarrow> Node option list" where
  "nodeChildren nd = concat (map fieldChildren (node_fields nd))"

lemma nodeItems_simps [simp]:
  "nodeItems [] = []"
  "nodeItems (v # vs) = (if snd (Value_Node v) then fst (Value_Node v) # nodeItems vs else nodeItems vs)"
  by (simp_all add: nodeItems_def)

lemma size_nodeItems: "Some m \<in> set (nodeItems vs) \<Longrightarrow> size m < size_list size vs"
proof -
  assume "Some m \<in> set (nodeItems vs)"
  then obtain v where v: "v \<in> set vs" "Value_Node v = (Some m, True)"
    by (auto simp: nodeItems_def prod_eq_iff)
  show ?thesis
    by (rule less_trans [OF size_Value_Node [OF v(2)]]) (rule size_list_member_less [OF v(1)])
qed

lemma size_fieldChildren: "Some m \<in> set (fieldChildren f) \<Longrightarrow> size m < size f"
proof (cases "snd (Value_Node (field_value f))")
  case True
  moreover assume "Some m \<in> set (fieldChildren f)"
  ultimately have "Value_Node (field_value f) = (Some m, True)"
    by (cases "Value_Node (field_value f)") (auto simp: fieldChildren_def)
  from size_Value_Node [OF this] size_Field_value [of f] show ?thesis by simp
next
  case False
  moreover assume "Some m \<in> set (fieldChildren f)"
  ultimately have m: "Some m \<in> set (nodeItems (fst (Value_List (field_value f))))"
    by (cases "Value_Node (field_value f)") (simp add: fieldChildren_def)
  then have vs: "Value_List (field_value f) = (fst (Value_List (field_value f)), True)"
    by (auto simp: Value_List_def split: if_splits)
  from size_nodeItems [OF m] size_Value_List [OF vs] size_Field_value [of f]
  show ?thesis by simp
qed

lemma nodeChildren_smaller: "Some m \<in> set (nodeChildren nd) \<Longrightarrow> size m < size nd"
proof -
  assume "Some m \<in> set (nodeChildren nd)"
  then obtain f where f: "f \<in> set (node_fields nd)" "Some m \<in> set (fieldChildren f)"
    by (auto simp: nodeChildren_def)
  have "size f < size_list size (node_fields nd)"
    by (rule size_list_member_less [OF f(1), where f = size])
  with size_fieldChildren [OF f(2)] show ?thesis by (cases nd) simp
qed

text \<open>The pre-order of a tree, with a \<open>None\<close> where a child is missing.\<close>

function preorder :: "Node option \<Rightarrow> Node option list" where
  "preorder None = [None]"
| "preorder (Some nd) = Some nd # concat (map preorder (nodeChildren nd))"
  by pat_completeness auto
termination
proof (relation "measure (case_option 0 size)", goal_cases)
  case (2 nd p)
  show ?case
  proof (cases p)
    case None
    then show ?thesis by (cases nd) simp
  next
    case (Some m)
    with 2 show ?thesis by (simp add: nodeChildren_smaller)
  qed
qed simp

declare preorder.simps(2) [simp del]

text \<open>Visiting a list of pointers: a nil pointer ends the visit, as does a visitor's false.\<close>

fun visitAll :: "'s visitor \<Rightarrow> Node option list \<Rightarrow> ('s, bool) eff" where
  "visitAll visit [] = retE True"
| "visitAll visit (None # ps) = retE False"
| "visitAll visit (Some n # ps) =
     bindE (visit \<lparr>gnode = Some n\<rparr>) (\<lambda>go. if \<not> go then retE False else visitAll visit ps)"

lemma visitAll_append:
  "visitAll visit (ps @ qs) =
     bindE (visitAll visit ps) (\<lambda>go. if \<not> go then retE False else visitAll visit qs)"
proof (induction visit ps rule: visitAll.induct)
  case (3 visit n ps)
  then show ?case by (simp add: bindE_assoc if_distrib [where f = "\<lambda>m. bindE m _"] cong: if_cong)
qed simp_all

lemma walk_visits_preorder:
  "walkNode visit p = visitAll visit (preorder p)"
  "walkFields visit fs = visitAll visit (concat (map preorder (concat (map fieldChildren fs))))"
  "walkItems visit vs = visitAll visit (concat (map preorder (nodeItems vs)))"
proof (induction visit p and visit fs and visit vs rule: walkNode_walkFields_walkItems.induct)
  case (1 visit p)
  show ?case
  proof (cases p)
    case None
    then show ?thesis by (simp add: walkNode.simps)
  next
    case (Some nd)
    have "walkFields visit (node_fields nd) = visitAll visit (concat (map preorder (nodeChildren nd)))"
      using 1 [OF Some, of True] by (simp add: nodeChildren_def)
    then show ?thesis by (simp add: Some walkNode.simps preorder.simps(2) cong: if_cong)
  qed
next
  case (3 visit f rest)
  then show ?case
    by (cases "snd (Value_Node (field_value f))")
       (auto simp: fieldChildren_def visitAll_append Value_List_def split: prod.splits cong: if_cong)
next
  case (5 visit item rest)
  then show ?case by (auto simp: visitAll_append split: prod.splits cong: if_cong)
qed simp_all

section \<open>A recording visitor\<close>

text \<open>The visitor that writes down every node it is shown and always asks for more.\<close>

definition recorder :: "Node option list visitor" where
  "recorder n = (\<lambda>seen. (Ret True, seen @ [gnode n]))"

lemma recorder_visits:
  "visitAll recorder ps seen = (Ret (None \<notin> set ps), seen @ takeWhile (\<lambda>p. p \<noteq> None) ps)"
proof (induction ps arbitrary: seen)
  case (Cons p ps)
  then show ?case by (cases p) (auto simp: recorder_def bindE_apply retE_apply)
qed (simp add: retE_apply)

section \<open>Properties\<close>


end
