(* ===== verification/Guard_Rule.thy ===== *)
theory Guard_Rule
  imports Guard_Statement
begin

text \<open>
  The rule contract, \<^verbatim>\<open>rule.go\<close>: the \<open>Rule\<close> interface, the fail-closed \<open>RuleResult\<close> and the
  validation of rule identifiers. A rule is code of the application: its methods are actions on
  the world. The theory shows that identifiers are exactly a bounded regular language and what
  that means for the text an error or event may carry.
\<close>

section \<open>The code\<close>

definition maxRuleIDLength :: nat where
  "maxRuleIDLength = 64"

record RuleResult =
  allowed :: bool

definition Allow :: RuleResult where
  "Allow = \<lparr>allowed = True\<rparr>"

definition Reject :: RuleResult where
  "Reject = \<lparr>allowed = False\<rparr>"

definition Rejected :: "RuleResult \<Rightarrow> bool" where
  "Rejected r = (\<not> allowed r)"

lemma Rejected_simps [simp]: "Rejected Reject" "\<not> Rejected Allow"
  by (simp_all add: Rejected_def Reject_def Allow_def)

text \<open>
  A caller context, as far as the module uses it: the answer of \<open>Err()\<close>, which may change from
  call to call as deadlines pass, and the request values it carries to the rules.
\<close>

record 'w Context =
  ctx_Err :: "('w, error) act"
  ctx_values :: "string \<Rightarrow> string option"

text \<open>\<open>context.Background()\<close> of the standard library: never canceled, no values.\<close>

definition Background :: "'w Context" where
  "Background = \<lparr>ctx_Err = retE None, ctx_values = (\<lambda>_. None)\<rparr>"

record 'w Rule =
  rule_ID :: "('w, string) act"
  rule_Evaluate :: "'w Context \<Rightarrow> Statement \<Rightarrow> ('w, RuleResult) act"

definition isASCIIAlphaNumeric :: "char \<Rightarrow> bool" where
  "isASCIIAlphaNumeric character =
     (let b = of_char character :: nat in
        of_char (CHR ''a'') \<le> b \<and> b \<le> of_char (CHR ''z'') \<or>
        of_char (CHR ''A'') \<le> b \<and> b \<le> of_char (CHR ''Z'') \<or>
        of_char (CHR ''0'') \<le> b \<and> b \<le> of_char (CHR ''9''))"

text \<open>The loop of \<open>validRuleID\<close> from position \<open>index\<close> on.\<close>

fun validRuleIDFrom :: "nat \<Rightarrow> string \<Rightarrow> bool" where
  "validRuleIDFrom index [] = True"
| "validRuleIDFrom index (character # rest) =
     (if isASCIIAlphaNumeric character then validRuleIDFrom (Suc index) rest
      else if index > 0 \<and> (character = CHR ''.'' \<or> character = CHR ''-'' \<or> character = CHR ''_'')
           then validRuleIDFrom (Suc index) rest
           else False)"

definition validRuleID :: "string \<Rightarrow> bool" where
  "validRuleID ruleID =
     (if length ruleID = 0 \<or> length ruleID > maxRuleIDLength then False
      else validRuleIDFrom 0 ruleID)"

section \<open>The language of identifiers\<close>

definition ruleIDChar :: "char \<Rightarrow> bool" where
  "ruleIDChar c = (isASCIIAlphaNumeric c \<or> c \<in> {CHR ''.'', CHR ''-'', CHR ''_''})"

lemma validRuleIDFrom_Suc: "validRuleIDFrom (Suc i) cs \<longleftrightarrow> list_all ruleIDChar cs"
  by (induction cs arbitrary: i) (auto simp: ruleIDChar_def)

lemma validRuleID_iff:
  "validRuleID ruleID \<longleftrightarrow>
     (\<exists>c cs. ruleID = c # cs \<and> isASCIIAlphaNumeric c \<and> list_all ruleIDChar cs \<and> length cs < 64)"
  by (cases ruleID) (auto simp: validRuleID_def validRuleIDFrom_Suc maxRuleIDLength_def)

lemma ruleIDChar_printable: "ruleIDChar c \<Longrightarrow> 32 < (of_char c :: nat) \<and> (of_char c :: nat) < 127"
  by (auto simp: ruleIDChar_def isASCIIAlphaNumeric_def Let_def)

lemma validRuleID_bounds:
  assumes "validRuleID ruleID"
  shows "0 < length ruleID" "length ruleID \<le> 64"
    "list_all (\<lambda>c. 32 < (of_char c :: nat) \<and> (of_char c :: nat) < 127) ruleID"
proof -
  from assms obtain c cs where id: "ruleID = c # cs" "isASCIIAlphaNumeric c"
      "list_all ruleIDChar cs" "length cs < 64"
    by (auto simp: validRuleID_iff)
  then have "list_all ruleIDChar ruleID" by (simp add: ruleIDChar_def)
  then show "list_all (\<lambda>c. 32 < (of_char c :: nat) \<and> (of_char c :: nat) < 127) ruleID"
    by (rule list.pred_mono_strong) (rule ruleIDChar_printable)
qed (use assms in \<open>auto simp: validRuleID_iff\<close>)

section \<open>Properties\<close>


end
