(* ===== verification/Guard_Observability.thy ===== *)
theory Guard_Observability
  imports Guard_Rule
begin

text \<open>
  Validation events and the sinks that receive them, \<^verbatim>\<open>observability.go\<close>. Modes and outcomes
  are Go string types with a fixed list of constants. A \<open>Metrics\<close> or \<open>Logger\<close> is code of the
  application, so its method is an action on the world that may fail or panic.
\<close>

type_synonym ValidationMode = string
type_synonym ValidationOutcome = string

definition ValidationModeEnforce :: ValidationMode where
  "ValidationModeEnforce = ''enforce''"

definition ValidationOutcomeAllowed :: ValidationOutcome where
  "ValidationOutcomeAllowed = ''allowed''"

definition ValidationOutcomePolicyViolation :: ValidationOutcome where
  "ValidationOutcomePolicyViolation = ''policy_violation''"

definition ValidationOutcomeParserFailure :: ValidationOutcome where
  "ValidationOutcomeParserFailure = ''parser_failure''"

definition ValidationOutcomeCanceled :: ValidationOutcome where
  "ValidationOutcomeCanceled = ''canceled''"

definition ValidationOutcomeInvalidPrepared :: ValidationOutcome where
  "ValidationOutcomeInvalidPrepared = ''invalid_prepared''"

lemmas outcome_defs =
  ValidationOutcomeAllowed_def ValidationOutcomePolicyViolation_def
  ValidationOutcomeParserFailure_def ValidationOutcomeCanceled_def
  ValidationOutcomeInvalidPrepared_def

record ValidationEvent =
  event_mode :: ValidationMode
  event_outcome :: ValidationOutcome
  event_ruleID :: string

definition newValidationEvent ::
    "ValidationMode \<Rightarrow> ValidationOutcome \<Rightarrow> string \<Rightarrow> ValidationEvent" where
  "newValidationEvent mode outcome ruleID =
     (let ruleID = (if outcome \<noteq> ValidationOutcomePolicyViolation then '''' else ruleID)
      in \<lparr>event_mode = mode, event_outcome = outcome, event_ruleID = ruleID\<rparr>)"

definition Event_Mode :: "ValidationEvent \<Rightarrow> ValidationMode" where
  "Event_Mode e = event_mode e"

definition Event_Outcome :: "ValidationEvent \<Rightarrow> ValidationOutcome" where
  "Event_Outcome e = event_outcome e"

definition Event_RuleID :: "ValidationEvent \<Rightarrow> string" where
  "Event_RuleID e = event_ruleID e"

lemmas event_accessors [go_defs] = Event_Mode_def Event_Outcome_def Event_RuleID_def

record 'w Metrics =
  RecordValidation :: "ValidationEvent \<Rightarrow> ('w, error) act"

record 'w Logger =
  LogValidation :: "ValidationEvent \<Rightarrow> ('w, error) act"

record 'w EngineOptions =
  opt_Metrics :: "'w Metrics iface"
  opt_Logger :: "'w Logger iface"

text \<open>The events the engine can emit: one dimension fixed, one of five values, one bounded.\<close>

definition terminalOutcomes :: "ValidationOutcome list" where
  "terminalOutcomes =
     [ValidationOutcomeAllowed, ValidationOutcomePolicyViolation, ValidationOutcomeParserFailure,
      ValidationOutcomeCanceled, ValidationOutcomeInvalidPrepared]"

lemma terminalOutcomes_distinct: "distinct terminalOutcomes"
  by (simp add: terminalOutcomes_def outcome_defs)

lemma newValidationEvent_sel [simp]:
  "event_mode (newValidationEvent m out r) = m"
  "event_outcome (newValidationEvent m out r) = out"
  "event_ruleID (newValidationEvent m out r) =
     (if out = ValidationOutcomePolicyViolation then r else '''')"
  by (simp_all add: newValidationEvent_def)

end
