(* ===== verification/Parser_Convert.thy ===== *)
theory Parser_Convert
  imports Parser_Node
begin

text \<open>
  The conversion of the backend's protobuf tree, \<^verbatim>\<open>internal/parser/pgquery.go\<close>. The generated
  \<open>pg_query\<close> messages and package \<open>protoreflect\<close> are not part of the module. A \<open>Message\<close> is
  what the conversion sees of one: the answers of the reflection calls the code makes on it
  (\<open>IsValid\<close>, the descriptor's \<open>FullName\<close> and \<open>Name\<close>, the message its first oneof holds, if
  any, and for every declared field in descriptor order its name, \<open>Has\<close> and \<open>Get\<close>). The value
  of a field carries the descriptor's \<open>IsList\<close> and \<open>Kind\<close> as its constructor, since \<open>Get\<close>
  answers with a value of the type its descriptor declares. The backends \<^verbatim>\<open>backend_cgo.go\<close> and
  \<^verbatim>\<open>backend_nocgo.go\<close> call one third-party parser each, which is the parameter \<open>parseBackend\<close>
  of \<open>Parse\<close>.
\<close>

section \<open>The reflected messages\<close>

text \<open>
  Integers are what \<open>Value.Int\<close> and \<open>Value.Uint\<close> return, 64 bits wide for every integer kind.
  An enum value comes with the values its descriptor declares, by number.
\<close>

datatype Message =
    Message (msg_isValid: bool) (msg_fullName: string) (msg_name: string)
      (msg_oneof: "Message option") (msg_fields: "MessageField list")
and MessageField =
    MessageField (mf_name: string) (mf_has: bool) (mf_get: Reflected)
and Reflected =
    RList "Singular list"
  | RSingular Singular
and Singular =
    BoolKind bool
  | Int32Kind "64 word" | Sint32Kind "64 word" | Sfixed32Kind "64 word"
  | Int64Kind "64 word" | Sint64Kind "64 word" | Sfixed64Kind "64 word"
  | Uint32Kind "64 word" | Fixed32Kind "64 word" | Uint64Kind "64 word" | Fixed64Kind "64 word"
  | FloatKind "64 word" | DoubleKind "64 word"
  | StringKind string | BytesKind "8 word list"
  | EnumKind "(32 word \<times> string) list" "32 word"
  | MessageKind Message | GroupKind Message
  | OtherKind

section \<open>The code\<close>

definition pgQueryNodeName :: string where
  "pgQueryNodeName = ''pg_query.Node''"

text \<open>
  \<open>convertFields\<close> is the loop of \<open>convertMessage\<close> over the descriptor's fields, \<open>convertList\<close>
  the loop of \<open>convertValue\<close> over a repeated field.
\<close>

fun convertMessage :: "Message \<Rightarrow> Node option"
  and convertFields :: "MessageField list \<Rightarrow> Field list"
  and convertValue :: "Reflected \<Rightarrow> Value"
  and convertList :: "Singular list \<Rightarrow> Value list"
  and convertSingularValue :: "Singular \<Rightarrow> Value" where
  "convertMessage (Message isValid fullName name oneof declaredFields) =
     (if \<not> isValid then None
      else if fullName = pgQueryNodeName
      then (case oneof of None \<Rightarrow> None | Some inner \<Rightarrow> convertMessage inner)
      else Some (Node name (convertFields declaredFields)))"
| "convertFields [] = []"
| "convertFields (MessageField name has source # rest) =
     (if \<not> has then convertFields rest
      else Field name (convertValue source) # convertFields rest)"
| "convertValue (RList list) = listVal (convertList list)"
| "convertValue (RSingular source) = convertSingularValue source"
| "convertList [] = []"
| "convertList (item # rest) = convertSingularValue item # convertList rest"
| "convertSingularValue (BoolKind b) = boolVal b"
| "convertSingularValue (Int32Kind i) = intVal i"
| "convertSingularValue (Sint32Kind i) = intVal i"
| "convertSingularValue (Sfixed32Kind i) = intVal i"
| "convertSingularValue (Int64Kind i) = intVal i"
| "convertSingularValue (Sint64Kind i) = intVal i"
| "convertSingularValue (Sfixed64Kind i) = intVal i"
| "convertSingularValue (Uint32Kind u) = uintVal u"
| "convertSingularValue (Fixed32Kind u) = uintVal u"
| "convertSingularValue (Uint64Kind u) = uintVal u"
| "convertSingularValue (Fixed64Kind u) = uintVal u"
| "convertSingularValue (FloatKind f) = floatVal f"
| "convertSingularValue (DoubleKind f) = floatVal f"
| "convertSingularValue (StringKind s) = stringVal s"
| "convertSingularValue (BytesKind bs) = bytesVal bs"
| "convertSingularValue (EnumKind declared number) =
     (case map_of declared number of None \<Rightarrow> enumVal '''' | Some name \<Rightarrow> enumVal name)"
| "convertSingularValue (MessageKind message) = nodeVal (convertMessage message)"
| "convertSingularValue (GroupKind message) = nodeVal (convertMessage message)"
| "convertSingularValue OtherKind = zeroValue"

text \<open>A nil \<open>*pg_query.Node\<close> is \<open>None\<close>.\<close>

definition convertPGNode :: "Message option \<Rightarrow> Node option" where
  "convertPGNode source = (case source of None \<Rightarrow> None | Some message \<Rightarrow> convertMessage message)"

text \<open>\<open>strings.IndexByte\<close>: the first position of a byte, or -1.\<close>

fun IndexByte :: "string \<Rightarrow> char \<Rightarrow> int" where
  "IndexByte [] c = -1"
| "IndexByte (x # xs) c =
     (if x = c then 0 else let i = IndexByte xs c in if i < 0 then -1 else i + 1)"

text \<open>
  The backend either fails or returns the statements of the parse tree: the \<open>Stmt\<close> of every
  \<open>RawStmt\<close>, which may be nil.
\<close>

type_synonym backend = "string \<Rightarrow> goerror + Message option list"

fun convertStatements :: "Node option list \<Rightarrow> Message option list \<Rightarrow> Node option list" where
  "convertStatements statements [] = statements"
| "convertStatements statements (rawStatement # rest) =
     (let statement = convertPGNode rawStatement
      in convertStatements (if statement \<noteq> None then statements @ [statement] else statements) rest)"

definition Parse :: "backend \<Rightarrow> string \<Rightarrow> Result option \<times> error" where
  "Parse parseBackend sql =
     (if IndexByte sql (CHR 0x00) \<ge> 0
      then (None, Some (ParserErr (Some \<lparr>error_category = FailureSyntax\<rparr>)))
      else case parseBackend sql of
             Inl err \<Rightarrow> (None, Some (ParserErr (Some \<lparr>error_category = FailureSyntax\<rparr>)))
           | Inr tree \<Rightarrow> (Some \<lparr>result_statements = convertStatements [] tree\<rparr>, None))"

section \<open>Shape of the converted tree\<close>

lemma convert_wf:
  "\<And>n. convertMessage m = Some n \<Longrightarrow> wf_Node n"
  "list_all wf_Field (convertFields fs)"
  "wf_Value (convertValue r)"
  "list_all wf_Value (convertList ss)"
  "wf_Value (convertSingularValue s)"
  by (induction m and fs and r and ss and s
      rule: convertMessage_convertFields_convertValue_convertList_convertSingularValue.induct)
     (auto split: if_splits option.splits simp: option.pred_set)

lemma convertFields_map:
  "convertFields fs = map (\<lambda>f. Field (mf_name f) (convertValue (mf_get f))) (filter mf_has fs)"
proof (induction fs)
  case (Cons f fs)
  then show ?case by (cases f) simp
qed simp

lemma convertList_map: "convertList ss = map convertSingularValue ss"
  by (induction ss) simp_all

lemma convertStatements_eq:
  "convertStatements acc ms = acc @ filter (\<lambda>n. n \<noteq> None) (map convertPGNode ms)"
  by (induction ms arbitrary: acc) (auto simp: Let_def)

lemma IndexByte_found: "IndexByte s c \<ge> 0 \<longleftrightarrow> c \<in> set s"
  by (induction s) (auto simp: Let_def)

lemma Parse_cases:
  "Parse b sql = (None, Some (ParserErr (Some \<lparr>error_category = FailureSyntax\<rparr>))) \<or>
   (\<exists>tree. b sql = Inr tree \<and> CHR 0x00 \<notin> set sql \<and>
      Parse b sql = (Some \<lparr>result_statements = filter (\<lambda>n. n \<noteq> None) (map convertPGNode tree)\<rparr>, None))"
  by (auto simp: Parse_def IndexByte_found convertStatements_eq split: sum.splits)

text \<open>A concrete message (valid, not the oneof container) keeps its name and its set fields.\<close>

lemma convertMessage_concrete:
  assumes "msg_isValid m" and "msg_fullName m \<noteq> pgQueryNodeName"
  shows "convertMessage m = Some (Node (msg_name m) (convertFields (msg_fields m)))"
  using assms by (cases m) simp

lemma convertMessage_container:
  assumes "msg_isValid m" and "msg_fullName m = pgQueryNodeName"
  shows "convertMessage m = Option.bind (msg_oneof m) convertMessage"
  using assms by (cases m) (auto split: option.splits)

text \<open>Reading a field of a converted message is reading the field of the message.\<close>

definition set_field :: "Message \<Rightarrow> string \<Rightarrow> Reflected option" where
  "set_field m name =
     map_option mf_get (List.find (\<lambda>f. mf_has f \<and> mf_name f = name) (msg_fields m))"

lemma find_field_converted:
  "find_field (convertFields fs) name =
     (case List.find (\<lambda>f. mf_has f \<and> mf_name f = name) fs of
        None \<Rightarrow> (zeroValue, False) | Some f \<Rightarrow> (convertValue (mf_get f), True))"
  by (induction fs) (auto simp: convertFields_map)

lemma Node_Field_converted:
  assumes "msg_isValid m" and "msg_fullName m \<noteq> pgQueryNodeName"
  shows "Node_Field (convertMessage m) name =
     (case set_field m name of None \<Rightarrow> (zeroValue, False) | Some r \<Rightarrow> (convertValue r, True))"
  by (simp add: convertMessage_concrete [OF assms] Node_Field_def find_field_converted set_field_def
      split: option.splits)

lemma field_map_converted:
  assumes "msg_isValid m" and "msg_fullName m \<noteq> pgQueryNodeName" and "convertMessage m = Some n"
  shows "node_kind n = msg_name m"
    and "field_map (node_fields n) name = map_option convertValue (set_field m name)"
proof -
  have n: "n = Node (msg_name m) (convertFields (msg_fields m))"
    using convertMessage_concrete [OF assms(1,2)] assms(3) by simp
  then show "node_kind n = msg_name m" by simp
  have "field_map (convertFields fs) name =
      map_option convertValue (map_option mf_get (List.find (\<lambda>f. mf_has f \<and> mf_name f = name) fs))" for fs
    by (induction fs) (auto simp: field_map_def convertFields_map)
  with n show "field_map (node_fields n) name = map_option convertValue (set_field m name)"
    by (simp add: set_field_def)
qed

section \<open>Properties\<close>

text \<open>
  What \<open>Parse\<close> returns, for every backend: SQL with a NUL byte and SQL the backend refuses
  give the same constant failure; everything else gives the converted statements of the tree
  in their order, without the empty ones.
\<close>

lemma parse_result:
  "Parse b sql =
     (let failure = (None, Some (ParserErr (Some \<lparr>error_category = FailureSyntax\<rparr>))) in
      if CHR 0x00 \<in> set sql then failure
      else case b sql of
             Inl _ \<Rightarrow> failure
           | Inr tree \<Rightarrow>
               (Some \<lparr>result_statements = filter (\<lambda>n. n \<noteq> None) (map convertPGNode tree)\<rparr>, None))"
  by (auto simp: Parse_def IndexByte_found convertStatements_eq split: sum.splits)

text \<open>
  C24: the tree a validation works on is well typed: every statement is a node, and in every
  value below it the members its kind does not select are zero, for any message the backend
  may return.
\<close>

theorem parse_well_typed:
  "case fst (Parse b sql) of
     None \<Rightarrow> snd (Parse b sql) \<noteq> None
   | Some r \<Rightarrow> list_all (\<lambda>p. case p of None \<Rightarrow> False | Some n \<Rightarrow> wf_Node n) (result_statements r)"
proof -
  have "wf_Node n" if "Some n = convertPGNode m" for n m
    using that convert_wf(1) by (auto simp: convertPGNode_def split: option.splits)
  then show ?thesis
    using Parse_cases [of b sql] by (auto simp: list_all_iff split: option.splits)
qed

text \<open>
  C25: conversion loses nothing a rule reads: a valid message that is not the oneof container
  becomes a node of its own name, and a field of that node is there exactly when the message
  has it, with the converted value.
\<close>

theorem converted_fields:
  assumes "msg_isValid m" and "msg_fullName m \<noteq> pgQueryNodeName"
  shows "Node_Kind (convertMessage m) = msg_name m \<and>
     Node_Field (convertMessage m) name =
       (case List.find (\<lambda>f. mf_has f \<and> mf_name f = name) (msg_fields m) of
          None \<Rightarrow> (zeroValue, False)
        | Some f \<Rightarrow> (convertValue (mf_get f), True))"
  by (simp add: convertMessage_concrete [OF assms] Node_Kind_def Node_Field_def find_field_converted)

theorem converted_fields_witness:
  "Node_Kind (convertMessage (Message True ''pg_query.DropStmt'' ''DropStmt'' None
       [MessageField ''behavior'' False (RSingular (BoolKind False)),
        MessageField ''missing_ok'' True (RSingular (BoolKind True))])) = ''DropStmt'' \<and>
   Node_Field (convertMessage (Message True ''pg_query.DropStmt'' ''DropStmt'' None
       [MessageField ''behavior'' False (RSingular (BoolKind False)),
        MessageField ''missing_ok'' True (RSingular (BoolKind True))])) ''missing_ok'' = (boolVal True, True)"
  using converted_fields [of "Message True ''pg_query.DropStmt'' ''DropStmt'' None
       [MessageField ''behavior'' False (RSingular (BoolKind False)),
        MessageField ''missing_ok'' True (RSingular (BoolKind True))]" "''missing_ok''"]
  by (simp add: pgQueryNodeName_def)

end
