(* ===== verification/Guard_Engine.thy ===== *)
theory Guard_Engine
  imports Guard_Observability Parser_Convert "HOL-Library.Sublist"
begin

text \<open>
  The engine, \<^verbatim>\<open>engine.go\<close> with \<^verbatim>\<open>prepared.go\<close> and \<^verbatim>\<open>validator.go\<close>: construction from options
  and rules, \<open>Prepare\<close>, \<open>ValidatePrepared\<close>, \<open>Validate\<close> and the emission of terminal events.
  Every call that leaves the module (context, parser, rule, sink) is recorded in the trace of
  the state, so that the theorems can speak about which calls a validation makes and in which
  order; \<open>CallDriver\<close> is a statement sent to the database driver, which only the examples do. The calls happen one after the other in the order the code has them; rules, contexts
  and sinks are arbitrary actions on the world, so anything other goroutines do to that world
  between two calls is part of what such an action may find.
\<close>

section \<open>State\<close>

datatype call =
    CallCtxErr
  | CallParse string
  | CallRuleID
  | CallEvaluate string Statement
  | CallRecord ValidationEvent
  | CallLog ValidationEvent
  | CallDriver string

type_synonym ('w, 'a) prog = "(('w, call) sys, 'a) eff"

record 'w registeredRule =
  reg_ruleID :: string
  reg_rule :: "'w Rule iface"

record 'w Engine =
  engine_rules :: "'w registeredRule list"
  engine_metrics :: "'w Metrics iface"
  engine_logger :: "'w Logger iface"

record Prepared =
  prepared_result :: "Result option"

definition zeroPrepared :: Prepared where
  "zeroPrepared = \<lparr>prepared_result = None\<rparr>"

definition errNilRule :: goerror where
  "errNilRule = Sentinel ''sqlguard: rule must not be nil''"

definition errInvalidRuleID :: goerror where
  "errInvalidRuleID = Sentinel ''sqlguard: rule identifier is invalid''"

definition errNilMetrics :: goerror where
  "errNilMetrics = Sentinel ''sqlguard: metrics must not be nil''"

definition errNilLogger :: goerror where
  "errNilLogger = Sentinel ''sqlguard: logger must not be nil''"

text \<open>\<open>fmt.Errorf\<close> with the identifier as \<^verbatim>\<open>%s\<close>: a new error value that wraps nothing.\<close>

definition errDuplicateRuleID :: "string \<Rightarrow> goerror" where
  "errDuplicateRuleID ruleID = Foreign (''sqlguard: duplicate rule identifier: '' @ ruleID)"

text \<open>A method call on a nil interface value panics.\<close>

definition nilDereference :: string where
  "nilDereference = ''invalid memory address or nil pointer dereference''"

definition invoke :: "('a \<Rightarrow> ('w, 'b) act) \<Rightarrow> 'a iface \<Rightarrow> ('w, 'b) act" where
  "invoke m receiver =
     (case receiver of None \<Rightarrow> panicE nilDereference | Some d \<Rightarrow> m (dyn_val d))"

section \<open>Construction\<close>

definition isTypedNil :: "'a iface \<Rightarrow> bool" where
  "isTypedNil value =
     (case value of
        None \<Rightarrow> False
      | Some reflected \<Rightarrow>
          if nilable_kind (dyn_kind reflected) then dyn_isNil reflected else False)"

definition isNilRule :: "'w Rule iface \<Rightarrow> bool" where
  "isNilRule rule = (if rule = None then True else isTypedNil rule)"

text \<open>
  The loop of \<open>validateRules\<close>: \<open>ruleIDs\<close> and \<open>seenRuleIDs\<close> are its two accumulators, an error
  is \<open>Inl\<close>.
\<close>

fun validateRulesFrom ::
    "string list \<Rightarrow> string set \<Rightarrow> 'w Rule iface list \<Rightarrow> ('w, goerror + string list) prog" where
  "validateRulesFrom ruleIDs seenRuleIDs [] = retE (Inr ruleIDs)"
| "validateRulesFrom ruleIDs seenRuleIDs (rule # rest) =
     (if isNilRule rule then retE (Inl errNilRule)
      else bindE (extcall CallRuleID (invoke rule_ID rule)) (\<lambda>ruleID.
        if \<not> validRuleID ruleID then retE (Inl errInvalidRuleID)
        else if ruleID \<in> seenRuleIDs then retE (Inl (errDuplicateRuleID ruleID))
        else validateRulesFrom (ruleIDs @ [ruleID]) (insert ruleID seenRuleIDs) rest))"

definition validateRules :: "'w Rule iface list \<Rightarrow> ('w, goerror + string list) prog" where
  "validateRules rules = validateRulesFrom [] {} rules"

text \<open>
  \<open>registrations\<close> pairs the rule of every position with the identifier read at that position;
  both slices have the same length when \<open>validateRules\<close> succeeds.
\<close>

definition registrations :: "string list \<Rightarrow> 'w Rule iface list \<Rightarrow> 'w registeredRule list" where
  "registrations ruleIDs rules =
     map (\<lambda>(ruleID, rule). \<lparr>reg_ruleID = ruleID, reg_rule = rule\<rparr>) (zip ruleIDs rules)"

definition NewEngine ::
    "'w EngineOptions \<Rightarrow> 'w Rule iface list \<Rightarrow> ('w, goerror + 'w Engine) prog" where
  "NewEngine options rules =
     (if isTypedNil (opt_Metrics options) then retE (Inl errNilMetrics)
      else if isTypedNil (opt_Logger options) then retE (Inl errNilLogger)
      else bindE (validateRules rules) (\<lambda>result.
        case result of
          Inl err \<Rightarrow> retE (Inl err)
        | Inr ruleIDs \<Rightarrow>
            retE (Inr \<lparr>engine_rules = registrations ruleIDs rules,
                       engine_metrics = opt_Metrics options,
                       engine_logger = opt_Logger options\<rparr>)))"

section \<open>Validation\<close>

definition isolateObservabilityFailure :: "('w, error) prog \<Rightarrow> ('w, unit) prog" where
  "isolateObservabilityFailure call = recoverE call"

definition emitMetrics :: "'w Metrics iface \<Rightarrow> ValidationEvent \<Rightarrow> ('w, unit) prog" where
  "emitMetrics metrics event =
     (if metrics = None then retE ()
      else isolateObservabilityFailure
             (extcall (CallRecord event) (invoke (\<lambda>m. RecordValidation m event) metrics)))"

definition emitLogger :: "'w Logger iface \<Rightarrow> ValidationEvent \<Rightarrow> ('w, unit) prog" where
  "emitLogger logger event =
     (if logger = None then retE ()
      else isolateObservabilityFailure
             (extcall (CallLog event) (invoke (\<lambda>l. LogValidation l event) logger)))"

definition finishValidation ::
    "'w Engine \<Rightarrow> ValidationOutcome \<Rightarrow> string \<Rightarrow> error \<Rightarrow> ('w, error) prog" where
  "finishValidation e outcome ruleID result =
     (let event = newValidationEvent ValidationModeEnforce outcome ruleID
      in bindE (emitMetrics (engine_metrics e) event) (\<lambda>_.
         bindE (emitLogger (engine_logger e) event) (\<lambda>_.
         retE result)))"

definition ctxErr :: "'w Context \<Rightarrow> ('w, error) prog" where
  "ctxErr ctx = extcall CallCtxErr (ctx_Err ctx)"

definition callParse :: "backend \<Rightarrow> string \<Rightarrow> ('w, Result option \<times> error) prog" where
  "callParse parseBackend sql = extcall (CallParse sql) (retE (Parse parseBackend sql))"

definition Prepare ::
    "backend \<Rightarrow> 'w Engine \<Rightarrow> 'w Context \<Rightarrow> string \<Rightarrow> ('w, Prepared \<times> error) prog" where
  "Prepare parseBackend e ctx sql =
     bindE (ctxErr ctx) (\<lambda>err.
       if err \<noteq> None
       then bindE (finishValidation e ValidationOutcomeCanceled '''' err)
              (\<lambda>r. retE (zeroPrepared, r))
       else bindE (callParse parseBackend sql) (\<lambda>(result, parseErr).
         bindE (ctxErr ctx) (\<lambda>err.
           if err \<noteq> None
           then bindE (finishValidation e ValidationOutcomeCanceled '''' err)
                  (\<lambda>r. retE (zeroPrepared, r))
           else if parseErr \<noteq> None
           then bindE (finishValidation e ValidationOutcomeParserFailure ''''
                         (translateParserError parseErr))
                  (\<lambda>r. retE (zeroPrepared, r))
           else retE (\<lparr>prepared_result = result\<rparr>, None))))"

definition callEvaluate ::
    "'w registeredRule \<Rightarrow> 'w Context \<Rightarrow> Statement \<Rightarrow> ('w, RuleResult) prog" where
  "callEvaluate registration ctx statement =
     extcall (CallEvaluate (reg_ruleID registration) statement)
       (invoke (\<lambda>r. rule_Evaluate r ctx statement) (reg_rule registration))"

text \<open>
  The two nested loops of \<open>ValidatePrepared\<close>. \<open>Some r\<close> is an early return of \<open>r\<close>, \<open>None\<close> means
  the loop ran to its end.
\<close>

fun evaluateRules ::
    "'w Engine \<Rightarrow> 'w Context \<Rightarrow> Statement \<Rightarrow> 'w registeredRule list \<Rightarrow> ('w, error option) prog" where
  "evaluateRules e ctx statement [] = retE None"
| "evaluateRules e ctx statement (registration # rest) =
     bindE (ctxErr ctx) (\<lambda>err.
       if err \<noteq> None
       then bindE (finishValidation e ValidationOutcomeCanceled '''' err) (\<lambda>r. retE (Some r))
       else bindE (callEvaluate registration ctx statement) (\<lambda>decision.
         if Rejected decision
         then bindE (finishValidation e ValidationOutcomePolicyViolation (reg_ruleID registration)
                       (Some (ViolationErr (newViolation (reg_ruleID registration)))))
                (\<lambda>r. retE (Some r))
         else evaluateRules e ctx statement rest))"

fun evaluateStatements ::
    "'w Engine \<Rightarrow> 'w Context \<Rightarrow> Node option list \<Rightarrow> ('w, error option) prog" where
  "evaluateStatements e ctx [] = retE None"
| "evaluateStatements e ctx (root # rest) =
     bindE (evaluateRules e ctx (newStatement root) (engine_rules e)) (\<lambda>returned.
       case returned of
         Some r \<Rightarrow> retE (Some r)
       | None \<Rightarrow> evaluateStatements e ctx rest)"

definition ValidatePrepared ::
    "'w Engine \<Rightarrow> 'w Context \<Rightarrow> Prepared \<Rightarrow> ('w, error) prog" where
  "ValidatePrepared e ctx prepared =
     bindE (ctxErr ctx) (\<lambda>err.
       if err \<noteq> None then finishValidation e ValidationOutcomeCanceled '''' err
       else if prepared_result prepared = None
       then finishValidation e ValidationOutcomeInvalidPrepared '''' (Some ErrInvalidPrepared)
       else bindE (evaluateStatements e ctx (StatementSequence (prepared_result prepared)))
         (\<lambda>returned.
            case returned of
              Some r \<Rightarrow> retE r
            | None \<Rightarrow> finishValidation e ValidationOutcomeAllowed '''' None))"

definition Validate ::
    "backend \<Rightarrow> 'w Engine \<Rightarrow> 'w Context \<Rightarrow> string \<Rightarrow> ('w, error) prog" where
  "Validate parseBackend e ctx sql =
     bindE (Prepare parseBackend e ctx sql) (\<lambda>(prepared, err).
       if err \<noteq> None then retE err else ValidatePrepared e ctx prepared)"

section \<open>Sinks\<close>

text \<open>
  What \<open>finishValidation\<close> relies on, whatever the sink does: emitting returns, and makes one
  call exactly when the sink is configured.
\<close>

locale event_sink =
  fixes emit :: "'k iface \<Rightarrow> ValidationEvent \<Rightarrow> ('w, unit) prog"
    and sink_call :: "ValidationEvent \<Rightarrow> call"
  assumes emit_returns: "fst (emit k ev s) = Ret ()"
    and emit_calls: "calls (snd (emit k ev s)) = calls s @ (if k = None then [] else [sink_call ev])"
begin

lemma emit_then: "bindE (emit k ev) f s = f () (snd (emit k ev s))"
  using emit_returns [of k ev s] by (cases "emit k ev s") (simp add: bindE_def)

end

lemma calls_snd_extcall [simp]: "calls (snd (extcall c f s)) = calls s @ [c]"
  by (auto simp: extcall_def split: prod.splits)

interpretation metrics_sink: event_sink emitMetrics CallRecord
  by unfold_locales (simp_all add: emitMetrics_def isolateObservabilityFailure_def recoverE_apply)

interpretation logger_sink: event_sink emitLogger CallLog
  by unfold_locales (simp_all add: emitLogger_def isolateObservabilityFailure_def recoverE_apply)

text \<open>The sink calls of one event, in the order the engine makes them.\<close>

definition emissions :: "'w Engine \<Rightarrow> ValidationEvent \<Rightarrow> call list" where
  "emissions e ev =
     (if engine_metrics e = None then [] else [CallRecord ev]) @
     (if engine_logger e = None then [] else [CallLog ev])"

lemma finishValidation_fst [simp]: "fst (finishValidation e outc ruleID result s) = Ret result"
  by (simp add: finishValidation_def Let_def metrics_sink.emit_then logger_sink.emit_then)

lemma finishValidation_calls [simp]:
  "calls (snd (finishValidation e outc ruleID result s)) =
     calls s @ emissions e (newValidationEvent ValidationModeEnforce outc ruleID)"
  by (simp add: finishValidation_def Let_def metrics_sink.emit_then logger_sink.emit_then
      metrics_sink.emit_calls logger_sink.emit_calls emissions_def)

lemma finishValidation_eq:
  "finishValidation e outc ruleID result s = (Ret result, snd (finishValidation e outc ruleID result s))"
  by (metis finishValidation_fst prod.collapse)

lemma finishValidation_result:
  "finishValidation e outc ruleID result s = (r, s') \<longleftrightarrow>
     r = Ret result \<and> s' = snd (finishValidation e outc ruleID result s)"
  by (metis finishValidation_eq prod.inject)

lemma finish_then:
  "bindE (finishValidation e outc ruleID result) f s =
     f result (snd (finishValidation e outc ruleID result s))"
  by (rule bindE_Ret [OF finishValidation_eq])

section \<open>One loop over the checks\<close>

text \<open>
  The nested loops visit one list of checks: for every statement in traversal order, every
  registration in registration order.
\<close>

type_synonym 'w check = "'w registeredRule \<times> Statement"

definition statementChecks :: "'w Engine \<Rightarrow> Node option \<Rightarrow> 'w check list" where
  "statementChecks e root = map (\<lambda>registration. (registration, newStatement root)) (engine_rules e)"

definition checks :: "'w Engine \<Rightarrow> Node option list \<Rightarrow> 'w check list" where
  "checks e roots = concat (map (statementChecks e) roots)"

fun evaluateChecks :: "'w Engine \<Rightarrow> 'w Context \<Rightarrow> 'w check list \<Rightarrow> ('w, error option) prog" where
  "evaluateChecks e ctx [] = retE None"
| "evaluateChecks e ctx ((registration, statement) # rest) =
     bindE (ctxErr ctx) (\<lambda>err.
       if err \<noteq> None
       then bindE (finishValidation e ValidationOutcomeCanceled '''' err) (\<lambda>r. retE (Some r))
       else bindE (callEvaluate registration ctx statement) (\<lambda>decision.
         if Rejected decision
         then bindE (finishValidation e ValidationOutcomePolicyViolation (reg_ruleID registration)
                       (Some (ViolationErr (newViolation (reg_ruleID registration)))))
                (\<lambda>r. retE (Some r))
         else evaluateChecks e ctx rest))"

lemma evaluateChecks_append:
  "evaluateChecks e ctx (xs @ ys) =
     bindE (evaluateChecks e ctx xs) (\<lambda>returned.
       case returned of Some r \<Rightarrow> retE (Some r) | None \<Rightarrow> evaluateChecks e ctx ys)"
  by (induction e ctx xs rule: evaluateChecks.induct)
     (simp_all add: bindE_assoc if_distrib [where f = "\<lambda>m. bindE m _"] cong: if_cong)

lemma evaluateRules_checks:
  "evaluateRules e ctx st regs = evaluateChecks e ctx (map (\<lambda>registration. (registration, st)) regs)"
  by (induction e ctx st regs rule: evaluateRules.induct) (simp_all cong: if_cong)

lemma evaluateStatements_checks:
  "evaluateStatements e ctx roots = evaluateChecks e ctx (checks e roots)"
proof (induction e ctx roots rule: evaluateStatements.induct)
  case (2 e ctx root rest)
  then show ?case
    by (simp add: checks_def statementChecks_def evaluateChecks_append evaluateRules_checks
        cong: option.case_cong)
qed (simp add: checks_def)

section \<open>The calls of a validation\<close>

definition checkCalls :: "'w check list \<Rightarrow> call list" where
  "checkCalls cs =
     concat (map (\<lambda>(registration, st). [CallCtxErr, CallEvaluate (reg_ruleID registration) st]) cs)"

lemma checkCalls_simps [simp]:
  "checkCalls [] = []"
  "checkCalls ((registration, st) # cs) =
     CallCtxErr # CallEvaluate (reg_ruleID registration) st # checkCalls cs"
  "checkCalls (xs @ ys) = checkCalls xs @ checkCalls ys"
  by (simp_all add: checkCalls_def)

abbreviation terminalEvent :: "ValidationOutcome \<Rightarrow> string \<Rightarrow> ValidationEvent" where
  "terminalEvent outc ruleID \<equiv> newValidationEvent ValidationModeEnforce outc ruleID"

text \<open>
  How a run over checks can return: all checks passed; the context was found canceled before
  some check; or some check was the first to reject.
\<close>

inductive checks_returned ::
    "'w Engine \<Rightarrow> 'w check list \<Rightarrow> error option \<Rightarrow> call list \<Rightarrow> bool" for e :: "'w Engine" where
  all_passed: "checks_returned e cs None (checkCalls cs)"
| canceled: "checks_returned e (pre @ post) (Some (Some err))
     (checkCalls pre @ [CallCtxErr] @ emissions e (terminalEvent ValidationOutcomeCanceled ''''))"
| violated: "checks_returned e (pre @ (registration, st) # post)
     (Some (Some (ViolationErr (newViolation (reg_ruleID registration)))))
     (checkCalls (pre @ [(registration, st)]) @
      emissions e (terminalEvent ValidationOutcomePolicyViolation (reg_ruleID registration)))"

lemma checks_returned_Cons:
  assumes "checks_returned e cs returned trace"
  shows "checks_returned e ((registration, st) # cs) returned
           (CallCtxErr # CallEvaluate (reg_ruleID registration) st # trace)"
  using assms
proof cases
  case all_passed
  then show ?thesis using checks_returned.all_passed [of e "(registration, st) # cs"] by simp
next
  case (canceled pre post err)
  then show ?thesis
    using checks_returned.canceled [of e "(registration, st) # pre" post err] by simp
next
  case (violated pre registration' st' post)
  then show ?thesis
    using checks_returned.violated [of e "(registration, st) # pre" registration' st' post] by simp
qed

lemma ctxErr_calls: "ctxErr ctx s = (r, s') \<Longrightarrow> calls s' = calls s @ [CallCtxErr]"
  by (simp add: ctxErr_def calls_extcall)

lemma ctxErrE:
  assumes "ctx_Err ctx (world s) = (r, w)"
  obtains t where "ctxErr ctx s = (r, t)" and "world t = w" and "calls t = calls s @ [CallCtxErr]"
  unfolding ctxErr_def using extcallE [where f = "ctx_Err ctx", OF assms] .

lemma callEvaluate_calls: "callEvaluate registration ctx st s = (r, s') \<Longrightarrow>
    calls s' = calls s @ [CallEvaluate (reg_ruleID registration) st]"
  by (simp add: callEvaluate_def calls_extcall)

lemma evaluateChecks_run:
  assumes "evaluateChecks e ctx cs s = (Ret returned, s')"
  shows "\<exists>trace. calls s' = calls s @ trace \<and> checks_returned e cs returned trace"
  using assms
proof (induction e ctx cs arbitrary: s rule: evaluateChecks.induct)
  case (1 e ctx)
  then show ?case using checks_returned.all_passed [of e "[]"] by (simp add: retE_apply)
next
  case (2 e ctx registration st rest)
  from "2.prems" obtain err t where err: "ctxErr ctx s = (Ret err, t)"
    by (auto elim: bindE_RetE)
  note t = ctxErr_calls [OF err]
  show ?case
  proof (cases err)
    case (Some ce)
    with "2.prems" err have "returned = Some (Some ce)"
      and "s' = snd (finishValidation e ValidationOutcomeCanceled '''' (Some ce) t)"
      by (auto simp: bindE_Ret [where m = "ctxErr ctx", OF err] finish_then retE_apply)
    with t show ?thesis
      using checks_returned.canceled [of e "[]" "(registration, st) # rest" ce] by auto
  next
    case None
    with "2.prems" obtain decision u where dec: "callEvaluate registration ctx st t = (Ret decision, u)"
      by (auto simp: bindE_Ret [where m = "ctxErr ctx", OF err] elim: bindE_RetE)
    note u = callEvaluate_calls [OF dec]
    show ?thesis
    proof (cases "Rejected decision")
      case True
      with "2.prems" None have "returned = Some (Some (ViolationErr (newViolation (reg_ruleID registration))))"
        and "calls s' = calls u @ emissions e (terminalEvent ValidationOutcomePolicyViolation (reg_ruleID registration))"
        by (auto simp: bindE_Ret [where m = "ctxErr ctx", OF err] bindE_Ret [where m = "callEvaluate registration ctx st", OF dec] finish_then retE_apply)
      with t u show ?thesis
        using checks_returned.violated [of e "[]" registration st rest] by auto
    next
      case False
      with "2.prems" None have "evaluateChecks e ctx rest u = (Ret returned, s')"
        by (simp add: bindE_Ret [where m = "ctxErr ctx", OF err] bindE_Ret [where m = "callEvaluate registration ctx st", OF dec])
      with "2.IH" None False obtain trace where
        "calls s' = calls u @ trace" "checks_returned e rest returned trace"
        by blast
      with t u show ?thesis by (auto intro: checks_returned_Cons)
    qed
  qed
qed

end
