(* ===== verification/Guard_Protocol.thy ===== *)
theory Guard_Protocol
  imports Guard_Engine
begin

text \<open>
  The protocol of the engine with its collaborators: which calls \<open>Prepare\<close>, \<open>ValidatePrepared\<close>
  and \<open>Validate\<close> make and in which order, whatever contexts, rules and sinks do. The three
  relations below list every way the operations can return; the run lemmas show that the code
  returns in no other way, and the corollaries read off the terminal event, the order of the
  rule evaluations and the precedence of the failures.
\<close>

section \<open>Returns of Prepare\<close>

inductive prepare_run ::
    "backend \<Rightarrow> 'w Engine \<Rightarrow> string \<Rightarrow> Prepared \<Rightarrow> error \<Rightarrow> call list \<Rightarrow> bool"
  for b :: backend and e :: "'w Engine" and sql :: string where
  canceled_before: "prepare_run b e sql zeroPrepared (Some err)
     (CallCtxErr # emissions e (terminalEvent ValidationOutcomeCanceled ''''))"
| canceled_after: "prepare_run b e sql zeroPrepared (Some err)
     ([CallCtxErr, CallParse sql, CallCtxErr] @
      emissions e (terminalEvent ValidationOutcomeCanceled ''''))"
| unparsed: "Parse b sql = (result, Some err) \<Longrightarrow>
   prepare_run b e sql zeroPrepared (translateParserError (Some err))
     ([CallCtxErr, CallParse sql, CallCtxErr] @
      emissions e (terminalEvent ValidationOutcomeParserFailure ''''))"
| parsed: "Parse b sql = (result, None) \<Longrightarrow>
   prepare_run b e sql \<lparr>prepared_result = result\<rparr> None [CallCtxErr, CallParse sql, CallCtxErr]"

lemma callParse_eq:
  obtains t where "callParse b sql s = (Ret (Parse b sql), t)" "calls t = calls s @ [CallParse sql]"
  by (auto simp: callParse_def extcall_def retE_apply)

lemma Prepare_run:
  assumes "Prepare b e ctx sql s = (Ret (p, err), s')"
  shows "\<exists>trace. calls s' = calls s @ trace \<and> prepare_run b e sql p err trace"
proof -
  from assms obtain err1 t where err1: "ctxErr ctx s = (Ret err1, t)"
    unfolding Prepare_def by (auto elim: bindE_RetE)
  note first = bindE_Ret [where m = "ctxErr ctx", OF err1] ctxErr_calls [OF err1]
  show ?thesis
  proof (cases err1)
    case (Some ce)
    with assms prepare_run.canceled_before [of b e sql ce] show ?thesis
      by (auto simp: Prepare_def first finish_then retE_apply)
  next
    case None
    obtain result perr where parse: "Parse b sql = (result, perr)" by fastforce
    obtain v where v: "callParse b sql t = (Ret (Parse b sql), v)" "calls v = calls t @ [CallParse sql]"
      by (rule callParse_eq)
    note second = bindE_Ret [where m = "callParse b sql", OF v(1)] v(2) parse
    from assms None obtain err2 u where err2: "ctxErr ctx v = (Ret err2, u)"
      unfolding Prepare_def by (auto simp: first second elim: bindE_RetE)
    note third = bindE_Ret [where m = "ctxErr ctx", OF err2] ctxErr_calls [OF err2]
    show ?thesis
    proof (cases err2)
      case (Some ce)
      with assms None prepare_run.canceled_after [of b e sql ce] show ?thesis
        by (auto simp: Prepare_def first second third finish_then retE_apply)
    next
      case None': None
      have "calls u = calls s @ [CallCtxErr, CallParse sql, CallCtxErr]"
        by (simp add: first second third)
      with assms None None' parse prepare_run.unparsed [of b sql result _ e]
        prepare_run.parsed [of b sql result e] show ?thesis
        by (cases perr) (auto simp: Prepare_def first second third finish_then retE_apply)
    qed
  qed
qed

section \<open>Returns of ValidatePrepared\<close>

inductive prepared_run ::
    "'w Engine \<Rightarrow> Prepared \<Rightarrow> error \<Rightarrow> call list \<Rightarrow> bool"
  for e :: "'w Engine" and p :: Prepared where
  canceled_first: "prepared_run e p (Some err)
     (CallCtxErr # emissions e (terminalEvent ValidationOutcomeCanceled ''''))"
| invalid: "prepared_result p = None \<Longrightarrow> prepared_run e p (Some ErrInvalidPrepared)
     (CallCtxErr # emissions e (terminalEvent ValidationOutcomeInvalidPrepared ''''))"
| allowed: "prepared_result p \<noteq> None \<Longrightarrow> prepared_run e p None
     (CallCtxErr # checkCalls (checks e (StatementSequence (prepared_result p))) @
      emissions e (terminalEvent ValidationOutcomeAllowed ''''))"
| stopped: "prepared_result p \<noteq> None \<Longrightarrow>
   checks_returned e (checks e (StatementSequence (prepared_result p))) (Some err) trace \<Longrightarrow>
   prepared_run e p err (CallCtxErr # trace)"

inductive_cases checks_returned_NoneE: "checks_returned e cs None trace"
inductive_cases checks_returned_SomeE: "checks_returned e cs (Some err) trace"

lemma ValidatePrepared_run:
  assumes "ValidatePrepared e ctx p s = (Ret err, s')"
  shows "\<exists>trace. calls s' = calls s @ trace \<and> prepared_run e p err trace"
proof -
  from assms obtain err1 t where err1: "ctxErr ctx s = (Ret err1, t)"
    unfolding ValidatePrepared_def by (auto elim: bindE_RetE)
  note first = bindE_Ret [where m = "ctxErr ctx", OF err1] ctxErr_calls [OF err1]
  let ?cs = "checks e (StatementSequence (prepared_result p))"
  show ?thesis
  proof (cases err1)
    case (Some ce)
    with assms prepared_run.canceled_first [of e p ce] show ?thesis
      by (auto simp: ValidatePrepared_def first finishValidation_result)
  next
    case valid: None
    show ?thesis
    proof (cases "prepared_result p")
      case None
      with assms valid prepared_run.invalid [of p e] show ?thesis
        by (auto simp: ValidatePrepared_def first finishValidation_result)
    next
      case (Some r)
      with assms valid obtain returned u
        where run: "evaluateChecks e ctx ?cs t = (Ret returned, u)"
          and rest: "(case returned of Some r \<Rightarrow> retE r
            | None \<Rightarrow> finishValidation e ValidationOutcomeAllowed '''' None) u = (Ret err, s')"
        by (auto simp: ValidatePrepared_def first evaluateStatements_checks elim: bindE_RetE)
      from evaluateChecks_run [OF run] obtain trace where
        u: "calls u = calls t @ trace" and cr: "checks_returned e ?cs returned trace" by blast
      show ?thesis
      proof (cases returned)
        case None
        with rest u cr Some prepared_run.allowed [of p e] show ?thesis
          by (auto simp: first finishValidation_result elim: checks_returned_NoneE)
      next
        case (Some r')
        with rest u cr \<open>prepared_result p = Some r\<close> prepared_run.stopped [of p e r' trace]
        show ?thesis by (auto simp: first retE_apply)
      qed
    qed
  qed
qed

section \<open>Returns of Validate\<close>

inductive validate_run :: "backend \<Rightarrow> 'w Engine \<Rightarrow> string \<Rightarrow> error \<Rightarrow> call list \<Rightarrow> bool"
  for b :: backend and e :: "'w Engine" and sql :: string where
  unprepared: "prepare_run b e sql p (Some err) trace \<Longrightarrow> validate_run b e sql (Some err) trace"
| validated: "prepare_run b e sql p None trace \<Longrightarrow> prepared_run e p err trace' \<Longrightarrow>
   validate_run b e sql err (trace @ trace')"

lemma Validate_run:
  assumes "Validate b e ctx sql s = (Ret err, s')"
  shows "\<exists>trace. calls s' = calls s @ trace \<and> validate_run b e sql err trace"
proof -
  from assms obtain p err1 t where prep: "Prepare b e ctx sql s = (Ret (p, err1), t)"
    and rest: "(if err1 \<noteq> None then retE err1 else ValidatePrepared e ctx p) t = (Ret err, s')"
    unfolding Validate_def by (auto elim: bindE_RetE)
  from Prepare_run [OF prep] obtain trace where
    t: "calls t = calls s @ trace" "prepare_run b e sql p err1 trace" by blast
  show ?thesis
  proof (cases err1)
    case None
    with rest have "ValidatePrepared e ctx p t = (Ret err, s')" by simp
    from ValidatePrepared_run [OF this] obtain trace' where
      "calls s' = calls t @ trace'" "prepared_run e p err trace'" by blast
    with t None validate_run.validated show ?thesis by (metis append.assoc)
  next
    case (Some ce)
    with rest t validate_run.unprepared show ?thesis by (auto simp: retE_apply)
  qed
qed

section \<open>Reading a trace\<close>

text \<open>The rule evaluations of a trace, and its sink calls.\<close>

definition evaluations :: "call list \<Rightarrow> (string \<times> Statement) list" where
  "evaluations trace =
     List.map_filter (\<lambda>c. case c of CallEvaluate ruleID st \<Rightarrow> Some (ruleID, st) | _ \<Rightarrow> None) trace"

definition sinkCalls :: "call list \<Rightarrow> call list" where
  "sinkCalls trace =
     filter (\<lambda>c. case c of CallRecord _ \<Rightarrow> True | CallLog _ \<Rightarrow> True | _ \<Rightarrow> False) trace"

definition checkLabels :: "'w check list \<Rightarrow> (string \<times> Statement) list" where
  "checkLabels cs = map (\<lambda>(registration, st). (reg_ruleID registration, st)) cs"

lemma checkLabels_simps [simp]:
  "checkLabels [] = []"
  "checkLabels ((registration, st) # cs) = (reg_ruleID registration, st) # checkLabels cs"
  "checkLabels (xs @ ys) = checkLabels xs @ checkLabels ys"
  by (simp_all add: checkLabels_def)

lemma evaluations_simps [simp]:
  "evaluations [] = []"
  "evaluations (xs @ ys) = evaluations xs @ evaluations ys"
  "evaluations (CallCtxErr # xs) = evaluations xs"
  "evaluations (CallParse sql # xs) = evaluations xs"
  "evaluations (CallRecord ev # xs) = evaluations xs"
  "evaluations (CallLog ev # xs) = evaluations xs"
  "evaluations (CallEvaluate ruleID st # xs) = (ruleID, st) # evaluations xs"
  by (simp_all add: evaluations_def List.map_filter_def)

lemma sinkCalls_simps [simp]:
  "sinkCalls [] = []"
  "sinkCalls (xs @ ys) = sinkCalls xs @ sinkCalls ys"
  "sinkCalls (CallCtxErr # xs) = sinkCalls xs"
  "sinkCalls (CallParse sql # xs) = sinkCalls xs"
  "sinkCalls (CallRecord ev # xs) = CallRecord ev # sinkCalls xs"
  "sinkCalls (CallLog ev # xs) = CallLog ev # sinkCalls xs"
  "sinkCalls (CallEvaluate ruleID st # xs) = sinkCalls xs"
  by (simp_all add: sinkCalls_def)

lemma emissions_read [simp]:
  "evaluations (emissions e ev) = []" "sinkCalls (emissions e ev) = emissions e ev"
  by (simp_all add: emissions_def)

lemma checkCalls_read [simp]:
  "evaluations (checkCalls cs) = checkLabels cs" "sinkCalls (checkCalls cs) = []"
  by (induction cs) (auto simp: checkLabels_def)

text \<open>The statements a trace sends to the driver.\<close>

definition driverCalls :: "call list \<Rightarrow> string list" where
  "driverCalls trace = List.map_filter (\<lambda>c. case c of CallDriver sql \<Rightarrow> Some sql | _ \<Rightarrow> None) trace"

lemma driverCalls_simps [simp]:
  "driverCalls [] = []"
  "driverCalls (xs @ ys) = driverCalls xs @ driverCalls ys"
  "driverCalls (CallCtxErr # xs) = driverCalls xs"
  "driverCalls (CallParse sql # xs) = driverCalls xs"
  "driverCalls (CallRecord ev # xs) = driverCalls xs"
  "driverCalls (CallLog ev # xs) = driverCalls xs"
  "driverCalls (CallEvaluate ruleID st # xs) = driverCalls xs"
  "driverCalls (CallDriver sql # xs) = sql # driverCalls xs"
  by (simp_all add: driverCalls_def List.map_filter_def)

lemma driverCalls_read [simp]: "driverCalls (emissions e ev) = []" "driverCalls (checkCalls cs) = []"
  by (simp add: emissions_def) (induction cs, auto simp: checkCalls_def)

section \<open>Trace contracts\<close>

text \<open>
  \<open>tracks P m\<close>: from every state \<open>m\<close> only appends to the trace, and what it appends stands in
  relation \<open>P\<close> to its outcome, be it a return or a panic.
\<close>

definition tracks :: "(call list \<Rightarrow> 'a outcome \<Rightarrow> bool) \<Rightarrow> ('w, 'a) prog \<Rightarrow> bool" where
  "tracks P m = (\<forall>s. \<exists>trace. calls (snd (m s)) = calls s @ trace \<and> P trace (fst (m s)))"

lemma tracks_mono: "tracks P m \<Longrightarrow> (\<And>tr r. P tr r \<Longrightarrow> Q tr r) \<Longrightarrow> tracks Q m"
  unfolding tracks_def by blast

lemma tracks_conj: "tracks P m \<Longrightarrow> tracks Q m \<Longrightarrow> tracks (\<lambda>tr r. P tr r \<and> Q tr r) m"
  unfolding tracks_def by (metis same_append_eq)

lemma tracks_from_start:
  "tracks P m \<Longrightarrow> P (calls (snd (m \<lparr>world = w, calls = []\<rparr>))) (fst (m \<lparr>world = w, calls = []\<rparr>))"
  unfolding tracks_def by (erule allE [of _ "\<lparr>world = w, calls = []\<rparr>"]) auto

lemma tracks_bind:
  assumes "tracks P m" and "\<And>tr x. P tr (Ret x) \<Longrightarrow> tracks (Q x) (f x)"
    and "\<And>tr p. P tr (Panic p) \<Longrightarrow> R tr (Panic p)"
    and "\<And>tr x tr' r. P tr (Ret x) \<Longrightarrow> Q x tr' r \<Longrightarrow> R (tr @ tr') r"
  shows "tracks R (bindE m f)"
  unfolding tracks_def
proof
  fix s
  from assms(1) obtain tr where tr: "calls (snd (m s)) = calls s @ tr" "P tr (fst (m s))"
    unfolding tracks_def by blast
  show "\<exists>trace. calls (snd (bindE m f s)) = calls s @ trace \<and> R trace (fst (bindE m f s))"
  proof (cases "m s")
    case (Pair r t)
    show ?thesis
    proof (cases r)
      case (Ret x)
      with assms(2) tr Pair obtain tr' where "calls (snd (f x t)) = calls t @ tr'" "Q x tr' (fst (f x t))"
        unfolding tracks_def by fastforce
      with tr Pair Ret assms(4) show ?thesis by (auto simp: bindE_def)
    next
      case (Panic p)
      with tr Pair assms(3) show ?thesis by (auto simp: bindE_def)
    qed
  qed
qed

lemma tracks_retE: "P [] (Ret x) \<Longrightarrow> tracks P (retE x)"
  unfolding tracks_def by simp

lemma tracks_ctxErr: "tracks (\<lambda>tr r. tr = [CallCtxErr]) (ctxErr ctx)"
  by (simp add: tracks_def ctxErr_def)

lemma tracks_callEvaluate:
  "tracks (\<lambda>tr r. tr = [CallEvaluate (reg_ruleID registration) st]) (callEvaluate registration ctx st)"
  by (simp add: tracks_def callEvaluate_def)

lemma tracks_callParse: "tracks (\<lambda>tr r. tr = [CallParse sql] \<and> r = Ret (Parse b sql)) (callParse b sql)"
  by (simp add: tracks_def callParse_def extcall_def retE_apply)

lemma tracks_finish:
  "tracks (\<lambda>tr r. tr = emissions e (terminalEvent outc ruleID) \<and> r = Ret result)
     (finishValidation e outc ruleID result)"
  by (simp add: tracks_def)

text \<open>
  The contract of the loops: evaluations are a prefix of the checks, complete when the loop
  ends normally, and a panic leaves no sink call behind.
\<close>

definition orderly :: "(string \<times> Statement) list \<Rightarrow> call list \<Rightarrow> 'a outcome \<Rightarrow> bool" where
  "orderly labels trace r =
     (prefix (evaluations trace) labels \<and> (\<forall>p. r = Panic p \<longrightarrow> sinkCalls trace = []))"

lemma orderly_simps [simp]:
  "orderly labels [] r"
  "orderly labels (CallCtxErr # tr) r = orderly labels tr r"
  "orderly labels (CallParse sql # tr) r = orderly labels tr r"
  "orderly ((ruleID, st) # labels) (CallEvaluate ruleID st # tr) r = orderly labels tr r"
  by (simp_all add: orderly_def)

lemma orderly_finish: "tracks (orderly labels) (finishValidation e outc ruleID result)"
  by (rule tracks_mono [OF tracks_finish]) (simp add: orderly_def)

lemma orderly_finish_then:
  "tracks (orderly labels) (bindE (finishValidation e outc ruleID result) (\<lambda>r. retE (f r)))"
  by (rule tracks_bind [OF tracks_finish, where Q = "\<lambda>x tr r. tr = [] \<and> r = Ret (f x)"])
     (auto simp: orderly_def intro: tracks_retE)

lemma evaluateChecks_orderly: "tracks (orderly (checkLabels cs)) (evaluateChecks e ctx cs)"
proof (induction e ctx cs rule: evaluateChecks.induct)
  case (1 e ctx)
  then show ?case by (simp add: tracks_retE orderly_def)
next
  case (2 e ctx registration st rest)
  let ?label = "(reg_ruleID registration, st)"
  have step: "tracks (orderly (?label # checkLabels rest))
      (bindE (callEvaluate registration ctx st) (\<lambda>decision.
         if Rejected decision
         then bindE (finishValidation e ValidationOutcomePolicyViolation (reg_ruleID registration)
                       (Some (ViolationErr (newViolation (reg_ruleID registration)))))
                (\<lambda>r. retE (Some r))
         else evaluateChecks e ctx rest))"
    by (rule tracks_bind [OF tracks_callEvaluate, where Q = "\<lambda>_. orderly (checkLabels rest)"])
       (use 2 in \<open>auto intro: orderly_finish_then\<close>)
  show ?case
    unfolding evaluateChecks.simps checkLabels_simps
    by (rule tracks_bind [OF tracks_ctxErr, where Q = "\<lambda>_. orderly (?label # checkLabels rest)"])
       (use step in \<open>auto intro: orderly_finish_then\<close>)
qed

lemma ValidatePrepared_orderly:
  "tracks (orderly (checkLabels (checks e (StatementSequence (prepared_result p))))) (ValidatePrepared e ctx p)"
proof -
  let ?cs = "checks e (StatementSequence (prepared_result p))"
  have loop: "tracks (orderly (checkLabels ?cs))
      (bindE (evaluateChecks e ctx ?cs) (\<lambda>returned. case returned of Some r \<Rightarrow> retE r
         | None \<Rightarrow> finishValidation e ValidationOutcomeAllowed '''' None))"
  proof (rule tracks_bind [OF evaluateChecks_orderly])
    show "tracks (\<lambda>tr r. evaluations tr = [] \<and> (\<exists>x. r = Ret x))
        (case returned of Some r \<Rightarrow> retE r
           | None \<Rightarrow> finishValidation e ValidationOutcomeAllowed '''' None)" for returned
      by (cases returned) (auto intro: tracks_retE tracks_mono [OF tracks_finish])
  qed (auto simp: orderly_def)
  show ?thesis
    unfolding ValidatePrepared_def evaluateStatements_checks
    by (rule tracks_bind [OF tracks_ctxErr, where Q = "\<lambda>_. orderly (checkLabels ?cs)"])
       (use loop in \<open>auto intro: orderly_finish\<close>)
qed

text \<open>Preparing evaluates nothing; what it returns decides the checks of the second phase.\<close>

definition preparing :: "backend \<Rightarrow> string \<Rightarrow> call list \<Rightarrow> (Prepared \<times> error) outcome \<Rightarrow> bool" where
  "preparing b sql trace r =
     (evaluations trace = [] \<and> (\<forall>p. r = Panic p \<longrightarrow> sinkCalls trace = []) \<and>
      (\<forall>p. r = Ret (p, None) \<longrightarrow> sinkCalls trace = [] \<and> prepared_result p = fst (Parse b sql)))"

lemma preparing_simps [simp]:
  "preparing b sql [] (Panic p)"
  "preparing b sql (CallCtxErr # tr) r = preparing b sql tr r"
  "preparing b sql (CallParse sql' # tr) r = preparing b sql tr r"
  by (simp_all add: preparing_def)

lemma preparing_finish:
  "result \<noteq> None \<Longrightarrow>
   tracks (preparing b sql) (bindE (finishValidation e outc ruleID result) (\<lambda>r. retE (zeroPrepared, r)))"
  by (rule tracks_bind [OF tracks_finish, where Q = "\<lambda>x tr r. tr = [] \<and> r = Ret (zeroPrepared, x)"])
     (auto simp: preparing_def intro: tracks_retE)

lemma preparing_done: "result = fst (Parse b sql) \<Longrightarrow> preparing b sql [] (Ret (\<lparr>prepared_result = result\<rparr>, None))"
  by (simp add: preparing_def)

lemma translateParserError_Some: "\<exists>parseErr. translateParserError (Some err) = Some (ParseErr parseErr)"
  by (simp add: translateParserError_def Let_def)

lemma translateParserError_nonnil [simp]: "\<exists>err'. translateParserError (Some err) = Some err'"
  using translateParserError_Some by blast

lemma prepare_run_parsed:
  assumes "prepare_run b e sql p None trace"
  obtains result where "Parse b sql = (result, None)" and "p = \<lparr>prepared_result = result\<rparr>"
    and "trace = [CallCtxErr, CallParse sql, CallCtxErr]"
  using assms
proof cases
  case (unparsed result err)
  with translateParserError_Some [of err] show ?thesis by simp
qed (use that in auto)

lemma Prepare_preparing: "tracks (preparing b sql) (Prepare b e ctx sql)"
proof -
  obtain result perr where parse: "Parse b sql = (result, perr)" by fastforce
  have poll: "tracks (preparing b sql) (bindE (ctxErr ctx) (\<lambda>err.
           if err \<noteq> None
           then bindE (finishValidation e ValidationOutcomeCanceled '''' err) (\<lambda>r. retE (zeroPrepared, r))
           else if perr \<noteq> None
           then bindE (finishValidation e ValidationOutcomeParserFailure '''' (translateParserError perr))
                  (\<lambda>r. retE (zeroPrepared, r))
           else retE (\<lparr>prepared_result = result\<rparr>, None)))"
    by (rule tracks_bind [OF tracks_ctxErr, where Q = "\<lambda>_. preparing b sql"])
       (auto simp del: not_None_eq intro!: preparing_finish tracks_retE preparing_done simp: parse)
  have parsed: "tracks (preparing b sql) (bindE (callParse b sql) (\<lambda>(result, parseErr).
         bindE (ctxErr ctx) (\<lambda>err.
           if err \<noteq> None
           then bindE (finishValidation e ValidationOutcomeCanceled '''' err) (\<lambda>r. retE (zeroPrepared, r))
           else if parseErr \<noteq> None
           then bindE (finishValidation e ValidationOutcomeParserFailure '''' (translateParserError parseErr))
                  (\<lambda>r. retE (zeroPrepared, r))
           else retE (\<lparr>prepared_result = result\<rparr>, None))))"
    by (rule tracks_bind [OF tracks_callParse, where Q = "\<lambda>_. preparing b sql"])
       (use poll in \<open>auto simp: parse\<close>)
  show ?thesis
    unfolding Prepare_def
    by (rule tracks_bind [OF tracks_ctxErr, where Q = "\<lambda>_. preparing b sql"])
       (use parsed in \<open>auto intro: preparing_finish\<close>)
qed

lemma Validate_orderly:
  "tracks (orderly (checkLabels (checks e (StatementSequence (fst (Parse b sql)))))) (Validate b e ctx sql)"
  unfolding Validate_def
proof (rule tracks_bind [OF Prepare_preparing])
  fix tr :: "call list" and x :: "Prepared \<times> error"
  show "tracks (case x of (p, None) \<Rightarrow> orderly (checkLabels (checks e (StatementSequence (prepared_result p))))
                | (p, Some err) \<Rightarrow> (\<lambda>tr r. tr = [] \<and> r = Ret (Some err)))
          (case x of (prepared, err) \<Rightarrow> if err \<noteq> None then retE err else ValidatePrepared e ctx prepared)"
    by (auto simp: ValidatePrepared_orderly intro: tracks_retE split: prod.splits option.splits)
qed (auto simp: preparing_def orderly_def split: prod.splits option.splits)

section \<open>The terminal event\<close>

text \<open>Which event reports which result. A context may answer with any error.\<close>

inductive terminal :: "error \<Rightarrow> ValidationEvent \<Rightarrow> bool" where
  "terminal None (terminalEvent ValidationOutcomeAllowed '''')"
| "terminal (Some (ViolationErr (newViolation ruleID)))
     (terminalEvent ValidationOutcomePolicyViolation ruleID)"
| "terminal (Some (ParseErr parseErr)) (terminalEvent ValidationOutcomeParserFailure '''')"
| "terminal (Some ErrInvalidPrepared) (terminalEvent ValidationOutcomeInvalidPrepared '''')"
| "terminal (Some ctxError) (terminalEvent ValidationOutcomeCanceled '''')"

definition reports :: "'w Engine \<Rightarrow> error \<Rightarrow> call list \<Rightarrow> bool" where
  "reports e err trace =
     (\<exists>body ev. trace = body @ emissions e ev \<and> sinkCalls body = [] \<and> terminal err ev)"

lemma reportsI: "sinkCalls body = [] \<Longrightarrow> terminal err ev \<Longrightarrow> reports e err (body @ emissions e ev)"
  unfolding reports_def by blast

lemma reports_append: "sinkCalls body = [] \<Longrightarrow> reports e err trace \<Longrightarrow> reports e err (body @ trace)"
  unfolding reports_def by (metis append.assoc append_Nil sinkCalls_simps(2))

lemma checks_returned_reports: "checks_returned e cs (Some err) trace \<Longrightarrow> reports e err trace"
proof (erule checks_returned_SomeE, goal_cases)
  case (1 pre post err')
  then show ?case
    using reportsI [of "checkCalls pre @ [CallCtxErr]", OF _ terminal.intros(5), of e err'] by simp
next
  case (2 pre registration st post)
  then show ?case
    using reportsI [OF checkCalls_read(2) [of "pre @ [(registration, st)]"]
        terminal.intros(2) [of "reg_ruleID registration"], of e] by simp
qed

lemma prepare_run_reports:
  assumes "prepare_run b e sql p err trace"
  shows "if err = None then sinkCalls trace = [] else reports e err trace"
  using assms
proof cases
  case (canceled_before err)
  then show ?thesis using reportsI [of "[CallCtxErr]", OF _ terminal.intros(5)] by simp
next
  case (canceled_after err)
  then show ?thesis
    using reportsI [of "[CallCtxErr, CallParse sql, CallCtxErr]", OF _ terminal.intros(5)] by simp
next
  case (unparsed result err)
  then show ?thesis
    using reportsI [of "[CallCtxErr, CallParse sql, CallCtxErr]", OF _ terminal.intros(3)]
      translateParserError_Some [of err] by auto
qed simp

lemma prepared_run_reports:
  assumes "prepared_run e p err trace"
  shows "reports e err trace"
  using assms
proof cases
  case (canceled_first err)
  then show ?thesis using reportsI [of "[CallCtxErr]", OF _ terminal.intros(5)] by simp
next
  case invalid
  then show ?thesis using reportsI [of "[CallCtxErr]", OF _ terminal.intros(4)] by simp
next
  case allowed
  then show ?thesis using reportsI [of "CallCtxErr # checkCalls _", OF _ terminal.intros(1)] by simp
next
  case (stopped trace)
  then show ?thesis
    using reports_append [of "[CallCtxErr]", OF _ checks_returned_reports [OF stopped(3)]] by simp
qed

lemma validate_run_reports:
  assumes "validate_run b e sql err trace"
  shows "reports e err trace"
  using assms
proof cases
  case (unprepared p err)
  then show ?thesis using prepare_run_reports by fastforce
next
  case (validated p trace1 trace2)
  then show ?thesis
    using prepare_run_reports [OF validated(2)] prepared_run_reports [OF validated(3)]
    by (simp add: reports_append)
qed

section \<open>Sinks take no part in the decision\<close>

text \<open>
  Two programs agree when they have the same outcome, and the same state too unless the
  outcome is one the engine has reported to its sinks.
\<close>

definition agree :: "('a \<Rightarrow> bool) \<Rightarrow> 'a outcome \<times> 's \<Rightarrow> 'a outcome \<times> 's \<Rightarrow> bool" where
  "agree reported x y =
     (fst x = fst y \<and> (\<forall>v. fst x = Ret v \<longrightarrow> \<not> reported v \<longrightarrow> snd x = snd y))"

lemma agree_refl: "agree P x x"
  by (simp add: agree_def)

lemma agree_finish_then:
  "P (f result) \<Longrightarrow>
   agree P (bindE (finishValidation e outc ruleID result) (\<lambda>r. retE (f r)) s)
           (bindE (finishValidation e' outc ruleID result) (\<lambda>r. retE (f r)) s)"
  by (simp add: agree_def finish_then)

lemma agree_bind:
  assumes "\<And>x t. m s = (Ret x, t) \<Longrightarrow> agree P (f x t) (g x t)"
  shows "agree P (bindE m f s) (bindE m g s)"
  using assms by (cases "m s"; cases "fst (m s)") (auto simp: bindE_def agree_def)

lemma evaluateChecks_agree:
  "agree (\<lambda>r. r \<noteq> None) (evaluateChecks e ctx cs s) (evaluateChecks e' ctx cs s)"
proof (induction e ctx cs arbitrary: s rule: evaluateChecks.induct)
  case (2 e ctx registration st rest)
  show ?case
    unfolding evaluateChecks.simps
    by (rule agree_bind, rename_tac err t, case_tac err)
       (auto simp del: not_None_eq intro!: agree_bind agree_finish_then 2)
qed (simp add: agree_refl)

lemma ValidatePrepared_agree:
  assumes "engine_rules e' = engine_rules e"
  shows "fst (ValidatePrepared e ctx p s) = fst (ValidatePrepared e' ctx p s)"
proof -
  let ?cs = "checks e (StatementSequence (prepared_result p))"
  have cs: "checks e' (StatementSequence (prepared_result p)) = ?cs"
    using assms by (simp add: checks_def statementChecks_def [abs_def])
  have loop: "fst (bindE (evaluateChecks e ctx ?cs) (\<lambda>returned. case returned of Some r \<Rightarrow> retE r
         | None \<Rightarrow> finishValidation e ValidationOutcomeAllowed '''' None) t) =
      fst (bindE (evaluateChecks e' ctx ?cs) (\<lambda>returned. case returned of Some r \<Rightarrow> retE r
         | None \<Rightarrow> finishValidation e' ValidationOutcomeAllowed '''' None) t)" for t
    using evaluateChecks_agree [of e ctx ?cs t e']
    by (auto simp: agree_def bindE_apply split: prod.splits outcome.splits option.splits)
  show ?thesis
    unfolding ValidatePrepared_def evaluateStatements_checks cs
    by (cases "ctxErr ctx s", cases "fst (ctxErr ctx s)") (auto simp: bindE_apply [of "ctxErr ctx"] loop)
qed

lemma Prepare_agree:
  "agree (\<lambda>(p, err). err \<noteq> None) (Prepare b e ctx sql s) (Prepare b e' ctx sql s)"
  unfolding Prepare_def
  by (rule agree_bind, rename_tac err t, case_tac err)
     (auto intro!: agree_bind agree_finish_then agree_refl)

lemma Validate_agree:
  assumes "engine_rules e' = engine_rules e"
  shows "fst (Validate b e ctx sql s) = fst (Validate b e' ctx sql s)"
  using Prepare_agree [of b e ctx sql s e'] ValidatePrepared_agree [OF assms]
  by (auto simp: Validate_def agree_def bindE_apply retE_apply split: prod.splits outcome.splits)

section \<open>The events of a run\<close>

definition permitted :: "'w Engine \<Rightarrow> ValidationEvent \<Rightarrow> bool" where
  "permitted e ev =
     (event_mode ev = ValidationModeEnforce \<and> event_outcome ev \<in> set terminalOutcomes \<and>
      (event_ruleID ev = '''' \<or> event_ruleID ev \<in> set (map reg_ruleID (engine_rules e))))"

definition permittedCalls :: "'w Engine \<Rightarrow> call list \<Rightarrow> bool" where
  "permittedCalls e trace =
     list_all (\<lambda>c. case c of CallRecord ev \<Rightarrow> permitted e ev | CallLog ev \<Rightarrow> permitted e ev | _ \<Rightarrow> True) trace"

lemma permittedCalls_simps [simp]:
  "permittedCalls e []"
  "permittedCalls e (xs @ ys) = (permittedCalls e xs \<and> permittedCalls e ys)"
  "permittedCalls e (CallCtxErr # xs) = permittedCalls e xs"
  "permittedCalls e (CallParse sql # xs) = permittedCalls e xs"
  "permittedCalls e (CallEvaluate ruleID st # xs) = permittedCalls e xs"
  by (simp_all add: permittedCalls_def)

lemma permittedCalls_checks [simp]: "permittedCalls e (checkCalls cs)"
  by (induction cs) (auto simp: checkCalls_def)

lemma permittedCalls_emissions: "permitted e ev \<Longrightarrow> permittedCalls e (emissions e ev)"
  by (simp add: permittedCalls_def emissions_def)

lemma permitted_terminal:
  "outc \<in> set terminalOutcomes \<Longrightarrow> ruleID = '''' \<or> ruleID \<in> set (map reg_ruleID (engine_rules e)) \<Longrightarrow>
   permittedCalls e (emissions e (terminalEvent outc ruleID))"
  by (rule permittedCalls_emissions) (simp add: permitted_def)

lemma permitted_fixed [simp]:
  "permittedCalls e (emissions e (terminalEvent ValidationOutcomeAllowed ''''))"
  "permittedCalls e (emissions e (terminalEvent ValidationOutcomeParserFailure ''''))"
  "permittedCalls e (emissions e (terminalEvent ValidationOutcomeCanceled ''''))"
  "permittedCalls e (emissions e (terminalEvent ValidationOutcomeInvalidPrepared ''''))"
  by (rule permitted_terminal; simp add: terminalOutcomes_def)+

lemma checks_registered: "(registration, st) \<in> set (checks e roots) \<Longrightarrow> registration \<in> set (engine_rules e)"
  by (auto simp: checks_def statementChecks_def)

lemma checks_returned_permitted:
  assumes "checks_returned e (checks e roots) returned trace"
  shows "permittedCalls e trace"
  using assms
proof cases
  case (violated pre registration st post)
  then have "registration \<in> set (engine_rules e)"
    by (intro checks_registered [of registration st e roots]) simp
  then have "permittedCalls e (emissions e (terminalEvent ValidationOutcomePolicyViolation (reg_ruleID registration)))"
    by (intro permitted_terminal) (auto simp: terminalOutcomes_def)
  with violated show ?thesis by simp
qed simp_all

lemma prepare_run_permitted: "prepare_run b e sql p err trace \<Longrightarrow> permittedCalls e trace"
  by (erule prepare_run.cases) simp_all

lemma prepared_run_permitted: "prepared_run e p err trace \<Longrightarrow> permittedCalls e trace"
  by (erule prepared_run.cases) (auto dest: checks_returned_permitted)

lemma validate_run_events:
  assumes "validate_run b e sql err trace" and "CallRecord ev \<in> set trace \<or> CallLog ev \<in> set trace"
  shows "permitted e ev"
proof -
  from assms(1) have "permittedCalls e trace"
    by cases (auto dest: prepare_run_permitted prepared_run_permitted)
  with assms(2) show ?thesis by (force simp: permittedCalls_def list_all_iff)
qed

section \<open>Validation never executes SQL\<close>

text \<open>
  The operations of the engine make no driver call, and their nil results have a fixed trace.
\<close>

definition allowedTrace :: "'w Engine \<Rightarrow> Result option \<Rightarrow> call list" where
  "allowedTrace e result =
     CallCtxErr # checkCalls (checks e (StatementSequence result)) @
     emissions e (terminalEvent ValidationOutcomeAllowed '''')"

definition undriven :: "call list \<Rightarrow> 'a outcome \<Rightarrow> bool" where
  "undriven trace r = (driverCalls trace = [])"

lemma undriven_simps [simp]:
  "undriven [] r"
  "undriven (xs @ ys) r = (undriven xs r \<and> undriven ys r)"
  "undriven (CallCtxErr # tr) r = undriven tr r"
  "undriven (CallParse sql # tr) r = undriven tr r"
  "undriven (CallEvaluate ruleID st # tr) r = undriven tr r"
  "undriven (emissions e ev) r"
  by (simp_all add: undriven_def)

lemma undriven_bind:
  assumes "tracks undriven m" and "\<And>x. tracks undriven (f x)"
  shows "tracks undriven (bindE m f)"
  by (rule tracks_bind [OF assms(1), where Q = "\<lambda>_. undriven"]) (use assms in \<open>auto simp: undriven_def\<close>)

lemma undriven_basic:
  "tracks undriven (retE x)" "tracks undriven (ctxErr ctx)" "tracks undriven (callEvaluate registration ctx st)"
  "tracks undriven (callParse b sql)" "tracks undriven (finishValidation e outc ruleID result)"
  by (simp_all add: tracks_def ctxErr_def callEvaluate_def callParse_def)

lemma undriven_evaluateChecks: "tracks undriven (evaluateChecks e ctx cs)"
  by (induction e ctx cs rule: evaluateChecks.induct) (auto intro!: undriven_bind undriven_basic)

lemma undriven_engine:
  "tracks undriven (Prepare b e ctx sql)" "tracks undriven (ValidatePrepared e ctx p)"
  "tracks undriven (Validate b e ctx sql)"
proof -
  show prep: "tracks undriven (Prepare b e ctx sql)"
    unfolding Prepare_def by (auto intro!: undriven_bind undriven_basic)
  have valid: "tracks undriven (ValidatePrepared e ctx p)" for p
    unfolding ValidatePrepared_def evaluateStatements_checks
    by (auto intro!: undriven_bind undriven_basic undriven_evaluateChecks split: option.split)
  show "tracks undriven (ValidatePrepared e ctx p)" by (rule valid)
  show "tracks undriven (Validate b e ctx sql)"
    unfolding Validate_def by (auto intro!: undriven_bind undriven_basic prep valid)
qed

lemma ValidatePrepared_allowed:
  assumes "ValidatePrepared e ctx p s = (Ret None, s')"
  shows "prepared_result p \<noteq> None \<and> calls s' = calls s @ allowedTrace e (prepared_result p)"
proof -
  from ValidatePrepared_run [OF assms] obtain trace where
    "calls s' = calls s @ trace" and "prepared_run e p None trace" by blast
  from this(2) this(1) show ?thesis
    by cases (auto simp: allowedTrace_def elim: checks_returned_SomeE)
qed

lemma Validate_allowed:
  assumes "Validate b e ctx sql s = (Ret None, s')"
  shows "\<exists>r. Parse b sql = (Some r, None) \<and>
     calls s' = calls s @ [CallCtxErr, CallParse sql, CallCtxErr] @ allowedTrace e (Some r)"
proof -
  from assms obtain p t where prep: "Prepare b e ctx sql s = (Ret (p, None), t)"
    and valid: "ValidatePrepared e ctx p t = (Ret None, s')"
    unfolding Validate_def by (auto elim!: bindE_RetE simp: retE_apply split: if_splits)
  from Prepare_run [OF prep] obtain trace where
    t: "calls t = calls s @ trace" "prepare_run b e sql p None trace" by blast
  from t(2) obtain result where "Parse b sql = (result, None)" "p = \<lparr>prepared_result = result\<rparr>"
    "trace = [CallCtxErr, CallParse sql, CallCtxErr]" by (rule prepare_run_parsed)
  with t(1) ValidatePrepared_allowed [OF valid] show ?thesis by auto
qed

section \<open>The work of a validation\<close>

definition within :: "nat \<Rightarrow> call list \<Rightarrow> 'a outcome \<Rightarrow> bool" where
  "within n trace r = (length trace \<le> n)"

lemma within_bind:
  assumes "tracks (within m) f" and "\<And>x. tracks (within n) (g x)"
  shows "tracks (within (m + n)) (bindE f g)"
  by (rule tracks_bind [OF assms(1), where Q = "\<lambda>_. within n"]) (use assms(2) in \<open>auto simp: within_def\<close>)

lemma within_mono: "tracks (within m) f \<Longrightarrow> m \<le> n \<Longrightarrow> tracks (within n) f"
  by (erule tracks_mono) (simp add: within_def)

lemma within_basic:
  "tracks (within 0) (retE x)" "tracks (within 1) (ctxErr ctx)"
  "tracks (within 1) (callEvaluate registration ctx st)" "tracks (within 1) (callParse b sql)"
  "tracks (within 2) (finishValidation e outc ruleID result)"
  by (simp_all add: tracks_def within_def ctxErr_def callEvaluate_def callParse_def emissions_def)

lemma within_report: "tracks (within 2) (bindE (finishValidation e outc ruleID result) (\<lambda>r. retE (f r)))"
  using within_bind [OF within_basic(5), where n = 0] within_basic(1) by (metis add_0_right)

text \<open>The loop spends two calls per check, and two more when it returns early.\<close>

definition spent :: "nat \<Rightarrow> call list \<Rightarrow> 'a option outcome \<Rightarrow> bool" where
  "spent n trace r = (length trace \<le> n + (case r of Ret (Some _) \<Rightarrow> 2 | _ \<Rightarrow> 0))"

lemma spent_simps [simp]: "spent n [] r" "spent (Suc n) (c # tr) r = spent n tr r"
  by (simp_all add: spent_def)

lemma spent_report: "tracks (spent n) (bindE (finishValidation e outc ruleID result) (\<lambda>r. retE (Some r)))"
  by (rule tracks_bind [OF tracks_finish, where Q = "\<lambda>x tr r. tr = [] \<and> r = Ret (Some x)"])
     (auto simp: spent_def emissions_def intro: tracks_retE)

lemma evaluateChecks_spent: "tracks (spent (length (checkCalls cs))) (evaluateChecks e ctx cs)"
proof (induction e ctx cs rule: evaluateChecks.induct)
  case (1 e ctx)
  then show ?case by (simp add: tracks_retE)
next
  case (2 e ctx registration st rest)
  have step: "tracks (spent (Suc (length (checkCalls rest))))
      (bindE (callEvaluate registration ctx st) (\<lambda>decision.
         if Rejected decision
         then bindE (finishValidation e ValidationOutcomePolicyViolation (reg_ruleID registration)
                       (Some (ViolationErr (newViolation (reg_ruleID registration)))))
                (\<lambda>r. retE (Some r))
         else evaluateChecks e ctx rest))"
    by (rule tracks_bind [OF tracks_callEvaluate, where Q = "\<lambda>_. spent (length (checkCalls rest))"])
       (use 2 in \<open>auto intro: spent_report\<close>)
  show ?case
    unfolding evaluateChecks.simps checkCalls_simps list.size
    by (rule tracks_bind [OF tracks_ctxErr, where Q = "\<lambda>_. spent (Suc (length (checkCalls rest)))"])
       (use step in \<open>auto intro: spent_report\<close>)
qed

lemma ValidatePrepared_within:
  "tracks (within (3 + length (checkCalls (checks e (StatementSequence (prepared_result p)))))) (ValidatePrepared e ctx p)"
proof -
  let ?cs = "checks e (StatementSequence (prepared_result p))"
  let ?n = "length (checkCalls ?cs)"
  have "tracks (within (?n + 2)) (bindE (evaluateChecks e ctx ?cs)
      (\<lambda>returned. case returned of Some r \<Rightarrow> retE r | None \<Rightarrow> finishValidation e ValidationOutcomeAllowed '''' None))"
    by (rule tracks_bind [OF evaluateChecks_spent, where Q = "\<lambda>returned tr r.
            length tr \<le> (case returned of None \<Rightarrow> 2 | Some _ \<Rightarrow> 0)"])
       (auto simp: spent_def within_def tracks_def emissions_def split: option.splits)
  then have "tracks (within (1 + (?n + 2))) (ValidatePrepared e ctx p)"
    unfolding ValidatePrepared_def evaluateStatements_checks
    by (intro within_bind [OF within_basic(2)]) (auto intro: within_mono [OF within_basic(5)])
  then show ?thesis by (rule within_mono) simp
qed

definition prepSpent :: "nat \<Rightarrow> call list \<Rightarrow> (Prepared \<times> error) outcome \<Rightarrow> bool" where
  "prepSpent n trace r = (length trace \<le> n + (case r of Ret (_, Some _) \<Rightarrow> 2 | _ \<Rightarrow> 0))"

lemma prepSpent_simps [simp]: "prepSpent n [] r" "prepSpent (Suc n) (c # tr) r = prepSpent n tr r"
  by (simp_all add: prepSpent_def)

lemma prepSpent_report:
  "result \<noteq> None \<Longrightarrow>
   tracks (prepSpent n) (bindE (finishValidation e outc ruleID result) (\<lambda>r. retE (zeroPrepared, r)))"
  by (rule tracks_bind [OF tracks_finish, where Q = "\<lambda>x tr r. tr = [] \<and> r = Ret (zeroPrepared, x)"])
     (auto simp: prepSpent_def emissions_def intro: tracks_retE)

lemma Prepare_spent: "tracks (prepSpent 3) (Prepare b e ctx sql)"
proof -
  have poll: "tracks (prepSpent 1) (bindE (ctxErr ctx) (\<lambda>err.
           if err \<noteq> None
           then bindE (finishValidation e ValidationOutcomeCanceled '''' err) (\<lambda>r. retE (zeroPrepared, r))
           else if perr \<noteq> None
           then bindE (finishValidation e ValidationOutcomeParserFailure '''' (translateParserError perr))
                  (\<lambda>r. retE (zeroPrepared, r))
           else retE (\<lparr>prepared_result = result\<rparr>, None)))" for result perr
    by (rule tracks_bind [OF tracks_ctxErr, where Q = "\<lambda>_. prepSpent 0"])
       (auto simp: One_nat_def simp del: not_None_eq intro!: tracks_retE prepSpent_report)
  have "tracks (prepSpent (Suc (Suc 1))) (Prepare b e ctx sql)"
    unfolding Prepare_def
    by (rule tracks_bind [OF tracks_ctxErr, where Q = "\<lambda>_. prepSpent (Suc 1)"])
       (auto intro!: prepSpent_report tracks_bind [OF tracks_callParse, where Q = "\<lambda>_. prepSpent 1"] poll
         simp del: not_None_eq split: prod.split)
  then show ?thesis by (simp add: numeral_3_eq_3)
qed

lemma Validate_within:
  "tracks (within (6 + length (checkCalls (checks e (StatementSequence (fst (Parse b sql))))))) (Validate b e ctx sql)"
proof -
  let ?n = "\<lambda>p. 3 + length (checkCalls (checks e (StatementSequence (prepared_result p))))"
  have prep: "tracks (\<lambda>tr r. prepSpent 3 tr r \<and> preparing b sql tr r) (Prepare b e ctx sql)"
    using Prepare_spent [of b e ctx sql] Prepare_preparing [of b sql e ctx]
    unfolding tracks_def by (metis same_append_eq)
  show ?thesis
    unfolding Validate_def
  proof (rule tracks_bind [OF prep])
    show "tracks (\<lambda>tr r. length tr \<le> (case x of (p, None) \<Rightarrow> ?n p | (p, Some err) \<Rightarrow> 0))
        (case x of (prepared, err) \<Rightarrow> if err \<noteq> None then retE err else ValidatePrepared e ctx prepared)" for x
      using ValidatePrepared_within [of e "fst x" ctx]
      by (auto simp: within_def [abs_def] intro: tracks_retE split: prod.splits option.splits)
  qed (auto simp: within_def prepSpent_def preparing_def split: prod.splits option.splits)
qed

lemma length_checkCalls:
  "length (checkCalls (checks e roots)) = 2 * (length roots * length (engine_rules e))"
proof -
  have "length (checkCalls cs) = 2 * length cs" for cs :: "'a check list"
    by (induction cs) auto
  moreover have "length (checks e roots) = length roots * length (engine_rules e)"
    by (induction roots) (simp_all add: checks_def statementChecks_def)
  ultimately show ?thesis by simp
qed

end
