(* ===== verification/Guard_Policy.thy ===== *)
theory Guard_Policy
  imports Guard_Protocol
begin

text \<open>
  What an engine decides. \<open>rule_policy\<close> is the contract of a deterministic rule that does not
  act on the world, \<open>policy_engine\<close> that of an engine built from such rules; \<open>deciding_engine\<close>
  asks only that the answers of the rules are determined by the statement, and in it the
  decision of the engine is refined to one search for the first rejected check. The theory also shows
  what \<open>NewEngine\<close> guarantees of the engines it returns, whatever the rules do.
\<close>

section \<open>Engines that NewEngine returns\<close>

lemma validateRulesFrom_Inr:
  assumes "validateRulesFrom acc seen rules s = (Ret (Inr ids), s')"
  shows "\<exists>new. ids = acc @ new \<and> length new = length rules \<and> distinct new \<and>
     set new \<inter> seen = {} \<and> list_all validRuleID new \<and> list_all (\<lambda>r. \<not> isNilRule r) rules \<and>
     calls s' = calls s @ replicate (length rules) CallRuleID"
  using assms
proof (induction acc seen rules arbitrary: s rule: validateRulesFrom.induct)
  case (1 acc seen)
  then show ?case by (auto simp: retE_apply)
next
  case (2 acc seen rule rest)
  from "2.prems" have nonnil: "\<not> isNilRule rule" by (auto simp: retE_apply split: if_splits)
  with "2.prems" obtain id t where t: "extcall CallRuleID (invoke rule_ID rule) s = (Ret id, t)"
      and rest: "(if \<not> validRuleID id then retE (Inl errInvalidRuleID)
        else if id \<in> seen then retE (Inl (errDuplicateRuleID id))
        else validateRulesFrom (acc @ [id]) (insert id seen) rest) t = (Ret (Inr ids), s')"
    by (auto elim: bindE_RetE)
  from rest have ok: "validRuleID id" "id \<notin> seen"
    and run: "validateRulesFrom (acc @ [id]) (insert id seen) rest t = (Ret (Inr ids), s')"
    by (auto simp: retE_apply split: if_splits)
  have "\<not> \<not> validRuleID id" using ok by simp
  from "2.IH" [OF nonnil this ok(2) run] obtain new where
    "ids = (acc @ [id]) @ new" "length new = length rest" "distinct new"
    "set new \<inter> insert id seen = {}" "list_all validRuleID new" "list_all (\<lambda>r. \<not> isNilRule r) rest"
    "calls s' = calls t @ replicate (length rest) CallRuleID"
    by blast
  with ok nonnil calls_extcall [OF t] show ?case by (intro exI [of _ "id # new"]) auto
qed

lemma map_registrations:
  assumes "length ids = length rules"
  shows "map reg_ruleID (registrations ids rules) = ids"
    and "map reg_rule (registrations ids rules) = rules"
  using assms by (induction ids rules rule: list_induct2) (simp_all add: registrations_def)

definition well_registered :: "'w Engine \<Rightarrow> bool" where
  "well_registered e =
     (distinct (map reg_ruleID (engine_rules e)) \<and>
      list_all validRuleID (map reg_ruleID (engine_rules e)) \<and>
      list_all (\<lambda>rule. \<not> isNilRule rule) (map reg_rule (engine_rules e)) \<and>
      \<not> isTypedNil (engine_metrics e) \<and> \<not> isTypedNil (engine_logger e))"

lemma NewEngine_registers:
  assumes "NewEngine options rules s = (Ret (Inr e), s')"
  shows "well_registered e" and "map reg_rule (engine_rules e) = rules"
    and "engine_metrics e = opt_Metrics options" and "engine_logger e = opt_Logger options"
    and "calls s' = calls s @ replicate (length rules) CallRuleID"
proof -
  from assms have sinks: "\<not> isTypedNil (opt_Metrics options)" "\<not> isTypedNil (opt_Logger options)"
    by (auto simp: NewEngine_def retE_apply split: if_splits)
  with assms obtain result t where run: "validateRules rules s = (Ret result, t)"
      and rest: "(case result of Inl err \<Rightarrow> retE (Inl err)
        | Inr ruleIDs \<Rightarrow> retE (Inr \<lparr>engine_rules = registrations ruleIDs rules,
            engine_metrics = opt_Metrics options, engine_logger = opt_Logger options\<rparr>)) t
        = (Ret (Inr e), s')"
    by (auto simp: NewEngine_def elim: bindE_RetE)
  from rest obtain ids where ids: "result = Inr ids" "t = s'"
      and e: "e = \<lparr>engine_rules = registrations ids rules,
            engine_metrics = opt_Metrics options, engine_logger = opt_Logger options\<rparr>"
    by (cases result) (auto simp: retE_apply)
  from validateRulesFrom_Inr [of "[]" "{}" rules s ids s'] run ids
  have new: "length ids = length rules" "distinct ids" "list_all validRuleID ids"
      "list_all (\<lambda>r. \<not> isNilRule r) rules" and calls: "calls s' = calls s @ replicate (length rules) CallRuleID"
    by (auto simp: validateRules_def)
  note maps = map_registrations [OF new(1)]
  show "well_registered e" using maps new sinks e by (simp add: well_registered_def)
  show "map reg_rule (engine_rules e) = rules" "engine_metrics e = opt_Metrics options"
    "engine_logger e = opt_Logger options" using maps e by simp_all
  show "calls s' = calls s @ replicate (length rules) CallRuleID" by (rule calls)
qed

section \<open>Deterministic rules\<close>

locale rule_policy =
  fixes rule :: "'w Rule iface"
    and ruleID :: string
    and rejects :: "Statement \<Rightarrow> bool"
  assumes not_nil: "\<not> isNilRule rule"
    and valid_ID: "validRuleID ruleID"
    and ID: "invoke rule_ID rule w = (Ret ruleID, w)"
    and Evaluate: "invoke (\<lambda>r. rule_Evaluate r ctx st) rule w =
      (Ret (if rejects st then Reject else Allow), w)"
begin

lemma answer: "fst (invoke (\<lambda>r. rule_Evaluate r ctx st) rule w) = Ret (if rejects st then Reject else Allow)"
  by (simp add: Evaluate)

end

type_synonym policy = "(string \<times> (Statement \<Rightarrow> bool)) list"

definition registers :: "'w registeredRule \<Rightarrow> string \<times> (Statement \<Rightarrow> bool) \<Rightarrow> bool" where
  "registers registration p =
     (reg_ruleID registration = fst p \<and> rule_policy (reg_rule registration) (fst p) (snd p))"

text \<open>A registered rule whose answers are determined by the statement, whatever it does to the world.\<close>

definition decides :: "'w registeredRule \<Rightarrow> string \<times> (Statement \<Rightarrow> bool) \<Rightarrow> bool" where
  "decides registration p =
     (reg_ruleID registration = fst p \<and>
      (\<forall>ctx st w. fst (invoke (\<lambda>r. rule_Evaluate r ctx st) (reg_rule registration) w) =
         Ret (if snd p st then Reject else Allow)))"

lemma registers_decides: "registers registration p \<Longrightarrow> decides registration p"
  unfolding registers_def decides_def by (elim conjE, intro conjI allI) (assumption, erule rule_policy.answer)

lemma decides_evaluates:
  "decides registration p \<Longrightarrow>
   \<exists>t. callEvaluate registration ctx st s = (Ret (if snd p st then Reject else Allow), t)"
  unfolding decides_def callEvaluate_def by (intro extcall_returns) blast

text \<open>
  The specification of a decision: the first rejected pair of a statement and a policy rule,
  statements first.
\<close>

definition policyChecks :: "policy \<Rightarrow> Statement list \<Rightarrow> ((string \<times> (Statement \<Rightarrow> bool)) \<times> Statement) list" where
  "policyChecks pol sts = concat (map (\<lambda>st. map (\<lambda>p. (p, st)) pol) sts)"

definition firstViolation :: "((string \<times> (Statement \<Rightarrow> bool)) \<times> Statement) list \<Rightarrow> error" where
  "firstViolation cs =
     map_option (\<lambda>(p, st). ViolationErr (newViolation (fst p))) (List.find (\<lambda>(p, st). snd p st) cs)"

definition policyDecision :: "policy \<Rightarrow> Result option \<Rightarrow> error" where
  "policyDecision pol result = firstViolation (policyChecks pol (map newStatement (StatementSequence result)))"

text \<open>A context that stays active.\<close>

definition active :: "'w Context \<Rightarrow> bool" where
  "active ctx = (\<forall>w. fst (ctx_Err ctx w) = Ret None)"

lemma active_ctxErr: "active ctx \<Longrightarrow> \<exists>t. ctxErr ctx s = (Ret None, t)"
  by (auto simp: active_def ctxErr_def extcall_def split: prod.splits) (metis fst_conv)

lemma Prepare_active:
  assumes "active ctx"
  shows "\<exists>t. Prepare b e ctx sql s = (Ret (case Parse b sql of
      (result, None) \<Rightarrow> (\<lparr>prepared_result = result\<rparr>, None)
    | (result, Some err) \<Rightarrow> (zeroPrepared, translateParserError (Some err))), t) \<and>
    calls t = calls s @ [CallCtxErr, CallParse sql, CallCtxErr] @
      (case snd (Parse b sql) of None \<Rightarrow> []
       | Some err \<Rightarrow> emissions e (terminalEvent ValidationOutcomeParserFailure ''''))"
proof -
  from active_ctxErr [OF assms] obtain t where t: "ctxErr ctx s = (Ret None, t)" by blast
  obtain u where u: "callParse b sql t = (Ret (Parse b sql), u)" "calls u = calls t @ [CallParse sql]"
    by (rule callParse_eq)
  from active_ctxErr [OF assms] obtain v where v: "ctxErr ctx u = (Ret None, v)" by blast
  note steps = bindE_Ret [where m = "ctxErr ctx", OF t] bindE_Ret [where m = "callParse b sql", OF u(1)]
    bindE_Ret [where m = "ctxErr ctx", OF v]
  obtain result err where "Parse b sql = (result, err)" by fastforce
  then show ?thesis
    by (cases err) (auto simp: Prepare_def steps finish_then retE_apply
        ctxErr_calls [OF t] ctxErr_calls [OF v] u(2))
qed

lemma evaluateChecks_policy:
  assumes "active ctx" and "list_all2 (\<lambda>(reg, st) (p, st'). decides reg p \<and> st = st') cs ps"
  shows "\<exists>t. evaluateChecks e ctx cs s =
     (Ret (case firstViolation ps of None \<Rightarrow> None | Some err \<Rightarrow> Some (Some err)), t)"
  using assms(2)
proof (induction cs ps arbitrary: s rule: list_all2_induct)
  case Nil
  then show ?case by (simp add: retE_apply firstViolation_def)
next
  case (Cons c cs p ps)
  obtain reg st where c: "c = (reg, st)" by fastforce
  obtain id rej where p: "p = ((id, rej), st)" using Cons c by (cases p) auto
  from Cons c p have reg: "decides reg (id, rej)" "reg_ruleID reg = id" by (auto simp: decides_def)
  from active_ctxErr [OF assms(1)] obtain t where t: "ctxErr ctx s = (Ret None, t)" by blast
  from decides_evaluates [OF reg(1), of ctx st t] obtain u where
    u: "callEvaluate reg ctx st t = (Ret (if rej st then Reject else Allow), u)" by auto
  note steps = bindE_Ret [where m = "ctxErr ctx", OF t] bindE_Ret [where m = "callEvaluate reg ctx st", OF u]
  show ?case
    using Cons.IH [of u]
    by (auto simp: c p steps finish_then retE_apply reg firstViolation_def)
qed

section \<open>Engines of deterministic rules\<close>

locale deciding_engine =
  fixes e :: "'w Engine" and pol :: policy
  assumes decided: "list_all2 decides (engine_rules e) pol"
begin

lemma checks_decided:
  "list_all2 (\<lambda>(reg, st) (p, st'). decides reg p \<and> st = st')
     (checks e roots) (policyChecks pol (map newStatement roots))"
  by (induction roots)
     (auto simp: checks_def policyChecks_def statementChecks_def list_all2_map1 list_all2_map2
       intro!: list_all2_appendI list_all2_mono [OF decided])

lemma ValidatePrepared_decides:
  assumes "active ctx"
  shows "fst (ValidatePrepared e ctx p s) = Ret (case prepared_result p of
      None \<Rightarrow> Some ErrInvalidPrepared | Some r \<Rightarrow> policyDecision pol (Some r))"
proof -
  from active_ctxErr [OF assms] obtain t where t: "ctxErr ctx s = (Ret None, t)" by blast
  note first = bindE_Ret [where m = "ctxErr ctx", OF t]
  let ?roots = "StatementSequence (prepared_result p)"
  from evaluateChecks_policy [OF assms checks_decided, of e ?roots t] obtain u where
    u: "evaluateStatements e ctx ?roots t = (Ret (case policyDecision pol (prepared_result p) of
          None \<Rightarrow> None | Some err \<Rightarrow> Some (Some err)), u)"
    by (auto simp: evaluateStatements_checks policyDecision_def)
  note second = bindE_Ret [where m = "evaluateStatements e ctx ?roots", OF u]
  show ?thesis
  proof (cases "prepared_result p")
    case (Some r)
    then show ?thesis
      by (cases "policyDecision pol (Some r)") (auto simp: ValidatePrepared_def first second [unfolded Some])
  qed (simp add: ValidatePrepared_def first)
qed

lemma Validate_decides:
  assumes "active ctx"
  shows "fst (Validate b e ctx sql s) = Ret (case Parse b sql of
      (result, None) \<Rightarrow> policyDecision pol result
    | (result, Some err) \<Rightarrow> translateParserError (Some err))"
proof -
  from Prepare_active [OF assms, of b e sql s] obtain t where
    prep: "Prepare b e ctx sql s = (Ret (case Parse b sql of
        (result, None) \<Rightarrow> (\<lparr>prepared_result = result\<rparr>, None)
      | (result, Some err) \<Rightarrow> (zeroPrepared, translateParserError (Some err))), t)" by blast
  from Parse_cases [of b sql] show ?thesis
    by (elim disjE exE conjE)
       (auto simp: Validate_def bindE_apply prep ValidatePrepared_decides [OF assms])
qed

end

locale policy_engine =
  fixes e :: "'w Engine" and pol :: policy
  assumes registered: "list_all2 registers (engine_rules e) pol"
begin

lemma checks_policy:
  "list_all2 (\<lambda>(reg, st) (p, st'). registers reg p \<and> st = st')
     (checks e roots) (policyChecks pol (map newStatement roots))"
  by (induction roots)
     (auto simp: checks_def policyChecks_def statementChecks_def list_all2_map1 list_all2_map2
       intro!: list_all2_appendI list_all2_mono [OF registered])

end

sublocale policy_engine \<subseteq> deciding: deciding_engine e pol
  by unfold_locales (rule list_all2_mono [OF registered registers_decides])

context policy_engine
begin

lemma ValidatePrepared_decides:
  "active ctx \<Longrightarrow> fst (ValidatePrepared e ctx p s) = Ret (case prepared_result p of
      None \<Rightarrow> Some ErrInvalidPrepared | Some r \<Rightarrow> policyDecision pol (Some r))"
  by (rule deciding.ValidatePrepared_decides)

lemma Validate_decides:
  "active ctx \<Longrightarrow> fst (Validate b e ctx sql s) = Ret (case Parse b sql of
      (result, None) \<Rightarrow> policyDecision pol result
    | (result, Some err) \<Rightarrow> translateParserError (Some err))"
  by (rule deciding.Validate_decides)

end

section \<open>When NewEngine succeeds\<close>

text \<open>A rule whose identifier is the same on every call.\<close>

definition stableID :: "'w Rule iface \<Rightarrow> string \<Rightarrow> bool" where
  "stableID rule ruleID = (\<forall>w. rule \<noteq> None \<longrightarrow> invoke rule_ID rule w = (Ret ruleID, w))"

definition registrable :: "string set \<Rightarrow> 'w Rule iface list \<Rightarrow> string list \<Rightarrow> bool" where
  "registrable seen rules ids =
     (list_all (\<lambda>r. \<not> isNilRule r) rules \<and> list_all validRuleID ids \<and> distinct ids \<and> set ids \<inter> seen = {})"

lemma validateRulesFrom_stable:
  assumes "list_all2 stableID rules ids"
  shows "if registrable seen rules ids then fst (validateRulesFrom acc seen rules s) = Ret (Inr (acc @ ids))
         else \<exists>err. fst (validateRulesFrom acc seen rules s) = Ret (Inl err)"
  using assms
proof (induction rules ids arbitrary: acc seen s rule: list_all2_induct)
  case Nil
  then show ?case by (simp add: registrable_def)
next
  case (Cons rule rules id ids)
  show ?case
  proof (cases "isNilRule rule")
    case True
    then show ?thesis by (simp add: registrable_def)
  next
    case False
    with Cons(1) have "invoke rule_ID rule (world s) = (Ret id, world s)"
      by (simp add: stableID_def isNilRule_def split: if_splits)
    from extcall_Ret [where f = "invoke rule_ID rule", OF this, of CallRuleID] obtain t where
      t: "extcall CallRuleID (invoke rule_ID rule) s = (Ret id, t)" by blast
    show ?thesis
      using Cons.IH [of "insert id seen" "acc @ [id]" t] False
      by (auto simp: registrable_def bindE_apply t split: if_splits)
  qed
qed

lemma NewEngine_stable:
  assumes "list_all2 stableID rules ids"
  shows "(\<exists>e. fst (NewEngine options rules s) = Ret (Inr e)) \<longleftrightarrow>
     \<not> isTypedNil (opt_Metrics options) \<and> \<not> isTypedNil (opt_Logger options) \<and> registrable {} rules ids"
    and "registrable {} rules ids \<Longrightarrow> \<not> isTypedNil (opt_Metrics options) \<Longrightarrow>
      \<not> isTypedNil (opt_Logger options) \<Longrightarrow>
      fst (NewEngine options rules s) = Ret (Inr \<lparr>engine_rules = registrations ids rules,
        engine_metrics = opt_Metrics options, engine_logger = opt_Logger options\<rparr>)"
proof -
  obtain r t where run: "validateRules rules s = (r, t)" by fastforce
  with validateRulesFrom_stable [OF assms, of "{}" "[]" s]
  have r: "if registrable {} rules ids then r = Ret (Inr ids) else \<exists>err. r = Ret (Inl err)"
    by (auto simp: validateRules_def split: if_splits)
  show "(\<exists>e. fst (NewEngine options rules s) = Ret (Inr e)) \<longleftrightarrow>
     \<not> isTypedNil (opt_Metrics options) \<and> \<not> isTypedNil (opt_Logger options) \<and> registrable {} rules ids"
    using r by (auto simp: NewEngine_def bindE_apply run split: if_splits)
  show "registrable {} rules ids \<Longrightarrow> \<not> isTypedNil (opt_Metrics options) \<Longrightarrow>
      \<not> isTypedNil (opt_Logger options) \<Longrightarrow>
      fst (NewEngine options rules s) = Ret (Inr \<lparr>engine_rules = registrations ids rules,
        engine_metrics = opt_Metrics options, engine_logger = opt_Logger options\<rparr>)"
    using r by (simp add: NewEngine_def bindE_apply run)
qed

lemma rule_policy_stable: "rule_policy rule ruleID rej \<Longrightarrow> stableID rule ruleID"
  by (simp add: rule_policy_def stableID_def)

lemma NewEngine_policy:
  assumes rules: "list_all2 (\<lambda>rule p. rule_policy rule (fst p) (snd p)) rules pol"
    and ids: "distinct (map fst pol)"
    and sinks: "\<not> isTypedNil (opt_Metrics options)" "\<not> isTypedNil (opt_Logger options)"
  obtains e where "fst (NewEngine options rules s) = Ret (Inr e)" and "policy_engine e pol"
    and "engine_metrics e = opt_Metrics options" and "engine_logger e = opt_Logger options"
proof -
  have stable: "list_all2 stableID rules (map fst pol)"
    using rules by (auto simp: list_all2_map2 elim: list_all2_mono intro: rule_policy_stable)
  have "list_all (\<lambda>r. \<not> isNilRule r) rules \<and> list_all validRuleID (map fst pol)"
    using rules by induction (auto simp: rule_policy_def)
  with ids have "registrable {} rules (map fst pol)" by (simp add: registrable_def)
  note run = NewEngine_stable(2) [OF stable this sinks, of s]
  have "list_all2 registers (registrations (map fst pol) rules) pol"
    using rules by induction (auto simp: registrations_def registers_def)
  then have "policy_engine \<lparr>engine_rules = registrations (map fst pol) rules,
      engine_metrics = opt_Metrics options, engine_logger = opt_Logger options\<rparr> pol"
    by unfold_locales simp
  with run that show thesis by simp
qed

section \<open>Decisions and covered statements\<close>

lemma StatementSequence_nonnil: "p \<in> set (StatementSequence result) \<Longrightarrow> p \<noteq> None"
  by (cases result) (auto simp: StatementSequence_tree)

lemma firstViolation_None: "firstViolation cs = None \<longleftrightarrow> (\<forall>(p, st) \<in> set cs. \<not> snd p st)"
  unfolding firstViolation_def case_prod_unfold option.map_disc_iff find_None_iff by blast

lemma policyDecision_allows:
  "policyDecision pol (Some r) = None \<longleftrightarrow>
     (\<forall>n. covered r n \<longrightarrow> (\<forall>p \<in> set pol. \<not> snd p (newStatement (Some n))))"
proof -
  have "policyDecision pol (Some r) = None \<longleftrightarrow>
      (\<forall>q \<in> set (StatementSequence (Some r)). \<forall>p \<in> set pol. \<not> snd p (newStatement q))"
    by (auto simp: policyDecision_def firstViolation_None policyChecks_def)
  also have "\<dots> \<longleftrightarrow> (\<forall>n. covered r n \<longrightarrow> (\<forall>p \<in> set pol. \<not> snd p (newStatement (Some n))))"
    unfolding covered_iff_listed using StatementSequence_nonnil by (metis not_None_eq)
  finally show ?thesis .
qed

text \<open>A reported violation is a rejection by a rule of the policy of a covered statement.\<close>

lemma policyDecision_blames:
  assumes "policyDecision pol (Some r) = Some err"
  shows "\<exists>n ruleID rej. covered r n \<and> (ruleID, rej) \<in> set pol \<and> rej (newStatement (Some n)) \<and>
     err = ViolationErr (newViolation ruleID)"
proof -
  from assms obtain p q where p: "p \<in> set pol" "q \<in> set (StatementSequence (Some r))"
      "snd p (newStatement q)" "err = ViolationErr (newViolation (fst p))"
    by (auto simp: policyDecision_def firstViolation_def policyChecks_def find_Some_iff
        dest!: nth_mem)
  moreover from StatementSequence_nonnil [OF p(2)] obtain n where "q = Some n" by blast
  ultimately show ?thesis
    unfolding covered_iff_listed by (metis prod.collapse)
qed

lemma active_Background [simp]: "active Background"
  by (simp add: active_def Background_def)

section \<open>Runs that return\<close>

lemma answers_finish [answering]: "answers (finishValidation e outc ruleID result)"
  unfolding answers_def using finishValidation_eq by metis

lemma answers_callParse [answering]: "answers (callParse b sql)"
  by (simp add: callParse_def answering)

definition rulesAnswer :: "'w Engine \<Rightarrow> 'w Context \<Rightarrow> bool" where
  "rulesAnswer e ctx =
     (\<forall>reg \<in> set (engine_rules e). \<forall>st. answers (invoke (\<lambda>r. rule_Evaluate r ctx st) (reg_rule reg)))"

lemma answers_ctxErr [answering]: "answers (ctx_Err ctx) \<Longrightarrow> answers (ctxErr ctx)"
  by (simp add: ctxErr_def answering)

lemma answers_evaluateChecks:
  assumes "answers (ctx_Err ctx)"
    and "\<forall>(reg, st) \<in> set cs. answers (invoke (\<lambda>r. rule_Evaluate r ctx st) (reg_rule reg))"
  shows "answers (evaluateChecks e ctx cs)"
  using assms
  by (induction e ctx cs rule: evaluateChecks.induct)
     (auto simp: callEvaluate_def intro!: answering)

lemma answers_ValidatePrepared:
  assumes "answers (ctx_Err ctx)" and "rulesAnswer e ctx"
  shows "answers (ValidatePrepared e ctx p)"
proof -
  have "answers (evaluateStatements e ctx roots)" for roots
    unfolding evaluateStatements_checks using assms(2)
    by (intro answers_evaluateChecks [OF assms(1)])
       (auto simp: rulesAnswer_def checks_def statementChecks_def)
  then show ?thesis
    unfolding ValidatePrepared_def
    by (auto intro!: answering assms(1) split: option.split)
qed

lemma policy_deciding: "policy_engine e pol \<Longrightarrow> deciding_engine e pol"
  by (auto simp: policy_engine_def deciding_engine_def elim: list_all2_mono intro: registers_decides)

lemma policy_rulesAnswer: "policy_engine e pol \<Longrightarrow> rulesAnswer e ctx"
  by (auto simp: policy_engine_def list_all2_conv_all_nth registers_def rule_policy_def
      rulesAnswer_def answers_def in_set_conv_nth)

lemma answers_Prepare: "answers (ctx_Err ctx) \<Longrightarrow> answers (Prepare b e ctx sql)"
  unfolding Prepare_def by (auto intro!: answering)

lemma answers_Validate:
  assumes "answers (ctx_Err ctx)" and "rulesAnswer e ctx"
  shows "answers (Validate b e ctx sql)"
  unfolding Validate_def
  by (auto intro!: answering answers_Prepare answers_ValidatePrepared assms)

end
