(* ===== verification/Builtin_Rules.thy ===== *)
theory Builtin_Rules
  imports Guard_Policy
begin

text \<open>
  The built-in rules, \<^verbatim>\<open>pkg/rules\<close>: \<open>mutation.go\<close>, \<open>insert.go\<close> and \<open>ddl.go\<close>. Every rule is an
  empty struct, so its interface value has kind \<open>Struct\<close> and is never nil; its methods touch
  nothing but the statement. Each rule is an instance of \<open>rule_policy\<close>, which gives what it
  decides, and the theory relates that decision to the message of the parse tree the statement
  came from.
\<close>

section \<open>The code\<close>

text \<open>An interface value that holds an empty struct with the given methods.\<close>

definition structRule :: "string \<Rightarrow> (Statement \<Rightarrow> RuleResult) \<Rightarrow> 'w Rule iface" where
  "structRule ID Evaluate =
     Some \<lparr>dyn_kind = Struct, dyn_isNil = False,
           dyn_val = \<lparr>rule_ID = retE ID, rule_Evaluate = (\<lambda>_ statement. retE (Evaluate statement))\<rparr>\<rparr>"

subsection \<open>mutation.go\<close>

definition updateRequiresWhereRuleID :: string where
  "updateRequiresWhereRuleID = ''update_requires_where''"

definition deleteRequiresWhereRuleID :: string where
  "deleteRequiresWhereRuleID = ''delete_requires_where''"

definition updateStatementKind :: Kind where
  "updateStatementKind = ''UpdateStmt''"

definition deleteStatementKind :: Kind where
  "deleteStatementKind = ''DeleteStmt''"

definition whereClauseField :: string where
  "whereClauseField = ''where_clause''"

definition requireWhereClause :: "Statement \<Rightarrow> Kind \<Rightarrow> RuleResult" where
  "requireWhereClause statement targetKind =
     (if Statement_Kind statement \<noteq> targetKind then Allow
      else case GuardNode_Child (Statement_Root statement) whereClauseField of
             (_, ok) \<Rightarrow> if ok then Allow else Reject)"

definition updateRequiresWhere_ID :: string where
  "updateRequiresWhere_ID = updateRequiresWhereRuleID"

definition updateRequiresWhere_Evaluate :: "Statement \<Rightarrow> RuleResult" where
  "updateRequiresWhere_Evaluate statement = requireWhereClause statement updateStatementKind"

definition deleteRequiresWhere_ID :: string where
  "deleteRequiresWhere_ID = deleteRequiresWhereRuleID"

definition deleteRequiresWhere_Evaluate :: "Statement \<Rightarrow> RuleResult" where
  "deleteRequiresWhere_Evaluate statement = requireWhereClause statement deleteStatementKind"

definition NewUpdateRequiresWhere :: "'w Rule iface" where
  "NewUpdateRequiresWhere = structRule updateRequiresWhere_ID updateRequiresWhere_Evaluate"

definition NewDeleteRequiresWhere :: "'w Rule iface" where
  "NewDeleteRequiresWhere = structRule deleteRequiresWhere_ID deleteRequiresWhere_Evaluate"

subsection \<open>insert.go\<close>

definition insertRequiresColumnsRuleID :: string where
  "insertRequiresColumnsRuleID = ''insert_requires_columns''"

definition insertStatementKind :: Kind where
  "insertStatementKind = ''InsertStmt''"

definition insertColumnsField :: string where
  "insertColumnsField = ''cols''"

definition insertRequiresColumns_ID :: string where
  "insertRequiresColumns_ID = insertRequiresColumnsRuleID"

definition insertRequiresColumns_Evaluate :: "Statement \<Rightarrow> RuleResult" where
  "insertRequiresColumns_Evaluate statement =
     (if Statement_Kind statement \<noteq> insertStatementKind then Allow
      else if length (GuardNode_Children (Statement_Root statement) insertColumnsField) > 0 then Allow
      else Reject)"

definition NewInsertRequiresColumns :: "'w Rule iface" where
  "NewInsertRequiresColumns = structRule insertRequiresColumns_ID insertRequiresColumns_Evaluate"

subsection \<open>ddl.go\<close>

definition denyTruncateRuleID :: string where
  "denyTruncateRuleID = ''deny_truncate''"

definition denyDropTableRuleID :: string where
  "denyDropTableRuleID = ''deny_drop_table''"

definition denyAlterTableRuleID :: string where
  "denyAlterTableRuleID = ''deny_alter_table''"

definition truncateStatementKind :: Kind where
  "truncateStatementKind = ''TruncateStmt''"

definition dropStatementKind :: Kind where
  "dropStatementKind = ''DropStmt''"

definition alterTableStatementKind :: Kind where
  "alterTableStatementKind = ''AlterTableStmt''"

definition alterTableMoveAllKind :: Kind where
  "alterTableMoveAllKind = ''AlterTableMoveAllStmt''"

definition dropObjectTypeField :: string where
  "dropObjectTypeField = ''remove_type''"

definition alterObjectTypeField :: string where
  "alterObjectTypeField = ''objtype''"

definition tableObjectType :: string where
  "tableObjectType = ''OBJECT_TABLE''"

definition denyTruncate_ID :: string where
  "denyTruncate_ID = denyTruncateRuleID"

definition denyTruncate_Evaluate :: "Statement \<Rightarrow> RuleResult" where
  "denyTruncate_Evaluate statement =
     (if Statement_Kind statement = truncateStatementKind then Reject else Allow)"

definition denyDropTable_ID :: string where
  "denyDropTable_ID = denyDropTableRuleID"

definition denyDropTable_Evaluate :: "Statement \<Rightarrow> RuleResult" where
  "denyDropTable_Evaluate statement =
     (if Statement_Kind statement \<noteq> dropStatementKind then Allow
      else case GuardNode_Enum (Statement_Root statement) dropObjectTypeField of
             (objectType, ok) \<Rightarrow> if \<not> ok \<or> objectType = tableObjectType then Reject else Allow)"

definition denyAlterTable_ID :: string where
  "denyAlterTable_ID = denyAlterTableRuleID"

definition denyAlterTable_Evaluate :: "Statement \<Rightarrow> RuleResult" where
  "denyAlterTable_Evaluate statement =
     (if Statement_Kind statement = alterTableStatementKind \<or>
         Statement_Kind statement = alterTableMoveAllKind
      then case GuardNode_Enum (Statement_Root statement) alterObjectTypeField of
             (objectType, ok) \<Rightarrow> if \<not> ok \<or> objectType = tableObjectType then Reject else Allow
      else Allow)"

definition NewDenyTruncate :: "'w Rule iface" where
  "NewDenyTruncate = structRule denyTruncate_ID denyTruncate_Evaluate"

definition NewDenyDropTable :: "'w Rule iface" where
  "NewDenyDropTable = structRule denyDropTable_ID denyDropTable_Evaluate"

definition NewDenyAlterTable :: "'w Rule iface" where
  "NewDenyAlterTable = structRule denyAlterTable_ID denyAlterTable_Evaluate"

lemmas builtin_ids =
  updateRequiresWhereRuleID_def deleteRequiresWhereRuleID_def insertRequiresColumnsRuleID_def
  denyTruncateRuleID_def denyDropTableRuleID_def denyAlterTableRuleID_def

lemmas builtin_id_methods =
  updateRequiresWhere_ID_def deleteRequiresWhere_ID_def insertRequiresColumns_ID_def
  denyTruncate_ID_def denyDropTable_ID_def denyAlterTable_ID_def

lemmas builtin_names =
  updateStatementKind_def deleteStatementKind_def insertStatementKind_def truncateStatementKind_def
  dropStatementKind_def alterTableStatementKind_def alterTableMoveAllKind_def
  whereClauseField_def insertColumnsField_def dropObjectTypeField_def alterObjectTypeField_def
  tableObjectType_def

lemmas builtin_rules =
  NewUpdateRequiresWhere_def NewDeleteRequiresWhere_def NewInsertRequiresColumns_def
  NewDenyTruncate_def NewDenyDropTable_def NewDenyAlterTable_def

section \<open>What each rule rejects\<close>

text \<open>
  The rejected statements, over the parsed node: the kind of the node and the fields it has.
\<close>

definition has_node :: "Node \<Rightarrow> string \<Rightarrow> bool" where
  "has_node n name =
     (case field_map (node_fields n) name of None \<Rightarrow> False | Some v \<Rightarrow> value_kind v = ValueNode)"

definition list_nodes :: "Node \<Rightarrow> string \<Rightarrow> Node option list" where
  "list_nodes n name =
     (case field_map (node_fields n) name of None \<Rightarrow> [] | Some v \<Rightarrow> nodeItems (fst (Value_List v)))"

definition enum_field :: "Node \<Rightarrow> string \<Rightarrow> string option" where
  "enum_field n name =
     (case field_map (node_fields n) name of
        None \<Rightarrow> None
      | Some v \<Rightarrow> if value_kind v = ValueEnum then Some (stringValue v) else None)"

definition onNode :: "(Node \<Rightarrow> bool) \<Rightarrow> Statement \<Rightarrow> bool" where
  "onNode P st = (case gnode (stmt_root st) of None \<Rightarrow> False | Some n \<Rightarrow> P n)"

definition missingWhere :: "Kind \<Rightarrow> Node \<Rightarrow> bool" where
  "missingWhere kind n = (node_kind n = kind \<and> \<not> has_node n ''where_clause'')"

definition missingColumns :: "Node \<Rightarrow> bool" where
  "missingColumns n = (node_kind n = ''InsertStmt'' \<and> list_nodes n ''cols'' = [])"

definition truncates :: "Node \<Rightarrow> bool" where
  "truncates n = (node_kind n = ''TruncateStmt'')"

text \<open>An object type that is not an enumeration counts as a table.\<close>

definition onTable :: "Kind list \<Rightarrow> string \<Rightarrow> Node \<Rightarrow> bool" where
  "onTable kinds field n =
     (node_kind n \<in> set kinds \<and> enum_field n field \<in> {None, Some ''OBJECT_TABLE''})"

lemma onNode_newStatement [simp]: "onNode P (newStatement (Some n)) = P n"
  by (simp add: onNode_def newStatement_def)

lemma collectChildren_items: "collectChildren acc vs = acc @ map (\<lambda>n. \<lparr>gnode = n\<rparr>) (nodeItems vs)"
  by (induction vs arbitrary: acc) (auto split: prod.splits)

lemma Child_has_node: "snd (GuardNode_Child \<lparr>gnode = Some n\<rparr> name) = has_node n name"
  by (auto simp: go_defs find_field_map has_node_def split: option.splits)

lemma Children_list_nodes:
  "GuardNode_Children \<lparr>gnode = Some n\<rparr> name = map (\<lambda>m. \<lparr>gnode = m\<rparr>) (list_nodes n name)"
  by (auto simp: go_defs find_field_map list_nodes_def collectChildren_items split: option.splits)

lemma Enum_enum_field:
  "(case GuardNode_Enum \<lparr>gnode = Some n\<rparr> name of (x, ok) \<Rightarrow> f x ok) =
   (case enum_field n name of Some x \<Rightarrow> f x True
    | None \<Rightarrow> f (fst (GuardNode_Enum \<lparr>gnode = Some n\<rparr> name)) False)"
  by (auto simp: go_defs find_field_map enum_field_def split: option.splits)

lemma statement_root_cases:
  obtains "st = newStatement None" | n where "st = newStatement (Some n)"
proof -
  have "st = newStatement (gnode (stmt_root st))" by (simp add: newStatement_def)
  then show thesis using that by (cases "gnode (stmt_root st)") auto
qed

lemma statement_reads [simp]:
  "Statement_Root (newStatement p) = \<lparr>gnode = p\<rparr>"
  "Statement_Kind (newStatement p) = (case p of None \<Rightarrow> '''' | Some n \<Rightarrow> node_kind n)"
  "\<not> onNode P (newStatement None)"
  by (simp_all add: go_defs onNode_def)

lemma requireWhereClause_rejects:
  assumes "kind \<noteq> ''''"
  shows "requireWhereClause st kind = (if onNode (missingWhere kind) st then Reject else Allow)"
proof (cases st rule: statement_root_cases)
  case (2 n)
  then show ?thesis
    using Child_has_node [of n "''where_clause''"]
    by (auto simp: requireWhereClause_def missingWhere_def whereClauseField_def split: prod.splits)
qed (use assms in \<open>simp add: requireWhereClause_def\<close>)

lemma insertRequiresColumns_rejects:
  "insertRequiresColumns_Evaluate st = (if onNode missingColumns st then Reject else Allow)"
  by (cases st rule: statement_root_cases)
     (auto simp: insertRequiresColumns_Evaluate_def missingColumns_def builtin_names Children_list_nodes)

lemma denyTruncate_rejects:
  "denyTruncate_Evaluate st = (if onNode truncates st then Reject else Allow)"
  by (cases st rule: statement_root_cases)
     (auto simp: denyTruncate_Evaluate_def truncates_def builtin_names)

lemma denyDropTable_rejects:
  "denyDropTable_Evaluate st = (if onNode (onTable [''DropStmt''] ''remove_type'') st then Reject else Allow)"
  by (cases st rule: statement_root_cases)
     (auto simp: denyDropTable_Evaluate_def onTable_def builtin_names Enum_enum_field split: option.splits)

lemma denyAlterTable_rejects:
  "denyAlterTable_Evaluate st =
     (if onNode (onTable [''AlterTableStmt'', ''AlterTableMoveAllStmt''] ''objtype'') st then Reject else Allow)"
  by (cases st rule: statement_root_cases)
     (auto simp: denyAlterTable_Evaluate_def onTable_def builtin_names Enum_enum_field split: option.splits)

section \<open>The rules as policies\<close>

lemma structRule_policy:
  assumes "validRuleID ruleID" and "\<And>st. Evaluate st = (if rejects st then Reject else Allow)"
  shows "rule_policy (structRule ruleID Evaluate) ruleID rejects"
  using assms by unfold_locales
    (simp_all add: structRule_def isNilRule_def isTypedNil_def invoke_def retE_apply)

lemma builtin_ids_valid:
  "validRuleID updateRequiresWhereRuleID" "validRuleID deleteRequiresWhereRuleID"
  "validRuleID insertRequiresColumnsRuleID" "validRuleID denyTruncateRuleID"
  "validRuleID denyDropTableRuleID" "validRuleID denyAlterTableRuleID"
  by code_simp+

interpretation update_where: rule_policy NewUpdateRequiresWhere updateRequiresWhereRuleID
  "onNode (missingWhere ''UpdateStmt'')"
  unfolding NewUpdateRequiresWhere_def builtin_id_methods
  by (rule structRule_policy [OF builtin_ids_valid(1)])
     (simp add: updateRequiresWhere_Evaluate_def updateStatementKind_def requireWhereClause_rejects)

interpretation delete_where: rule_policy NewDeleteRequiresWhere deleteRequiresWhereRuleID
  "onNode (missingWhere ''DeleteStmt'')"
  unfolding NewDeleteRequiresWhere_def builtin_id_methods
  by (rule structRule_policy [OF builtin_ids_valid(2)])
     (simp add: deleteRequiresWhere_Evaluate_def deleteStatementKind_def requireWhereClause_rejects)

interpretation insert_columns: rule_policy NewInsertRequiresColumns insertRequiresColumnsRuleID
  "onNode missingColumns"
  unfolding NewInsertRequiresColumns_def builtin_id_methods
  by (rule structRule_policy [OF builtin_ids_valid(3)]) (rule insertRequiresColumns_rejects)

interpretation deny_truncate: rule_policy NewDenyTruncate denyTruncateRuleID "onNode truncates"
  unfolding NewDenyTruncate_def builtin_id_methods
  by (rule structRule_policy [OF builtin_ids_valid(4)]) (rule denyTruncate_rejects)

interpretation deny_drop: rule_policy NewDenyDropTable denyDropTableRuleID
  "onNode (onTable [''DropStmt''] ''remove_type'')"
  unfolding NewDenyDropTable_def builtin_id_methods
  by (rule structRule_policy [OF builtin_ids_valid(5)]) (rule denyDropTable_rejects)

interpretation deny_alter: rule_policy NewDenyAlterTable denyAlterTableRuleID
  "onNode (onTable [''AlterTableStmt'', ''AlterTableMoveAllStmt''] ''objtype'')"
  unfolding NewDenyAlterTable_def builtin_id_methods
  by (rule structRule_policy [OF builtin_ids_valid(6)]) (rule denyAlterTable_rejects)

text \<open>All six rules, in the order of the files, and what they reject.\<close>

definition builtinRules :: "'w Rule iface list" where
  "builtinRules =
     [NewUpdateRequiresWhere, NewDeleteRequiresWhere, NewInsertRequiresColumns,
      NewDenyTruncate, NewDenyDropTable, NewDenyAlterTable]"

definition builtinPolicy :: policy where
  "builtinPolicy =
     [(updateRequiresWhereRuleID, onNode (missingWhere ''UpdateStmt'')),
      (deleteRequiresWhereRuleID, onNode (missingWhere ''DeleteStmt'')),
      (insertRequiresColumnsRuleID, onNode missingColumns),
      (denyTruncateRuleID, onNode truncates),
      (denyDropTableRuleID, onNode (onTable [''DropStmt''] ''remove_type'')),
      (denyAlterTableRuleID, onNode (onTable [''AlterTableStmt'', ''AlterTableMoveAllStmt''] ''objtype''))]"

lemma builtin_policies:
  "list_all2 (\<lambda>rule p. rule_policy rule (fst p) (snd p)) builtinRules builtinPolicy"
  by (simp add: builtinRules_def builtinPolicy_def update_where.rule_policy_axioms
      delete_where.rule_policy_axioms insert_columns.rule_policy_axioms
      deny_truncate.rule_policy_axioms deny_drop.rule_policy_axioms deny_alter.rule_policy_axioms)

lemma builtinPolicy_ids: "distinct (map fst builtinPolicy)"
  by (simp add: builtinPolicy_def builtin_ids)

text \<open>The engine that \<open>NewEngine\<close> builds from them.\<close>

definition builtinEngine :: "'w EngineOptions \<Rightarrow> 'w Engine" where
  "builtinEngine options =
     \<lparr>engine_rules = registrations (map fst builtinPolicy) builtinRules,
      engine_metrics = opt_Metrics options, engine_logger = opt_Logger options\<rparr>"

interpretation builtin: policy_engine "builtinEngine options" builtinPolicy for options
  by unfold_locales
     (use builtin_policies in \<open>simp add: builtinEngine_def builtinRules_def builtinPolicy_def
       registrations_def registers_def\<close>)

lemma NewEngine_builtin:
  assumes "\<not> isTypedNil (opt_Metrics options)" and "\<not> isTypedNil (opt_Logger options)"
  shows "fst (NewEngine options builtinRules s) = Ret (Inr (builtinEngine options))"
proof -
  have "list_all2 stableID (builtinRules :: 'a Rule iface list) (map fst builtinPolicy)"
    using builtin_policies
    by (auto simp: list_all2_map2 elim: list_all2_mono intro: rule_policy_stable)
  moreover have "registrable {} (builtinRules :: 'a Rule iface list) (map fst builtinPolicy)"
    using builtinPolicy_ids builtin_ids_valid
    by (simp add: registrable_def builtinRules_def builtinPolicy_def update_where.not_nil
        delete_where.not_nil insert_columns.not_nil deny_truncate.not_nil deny_drop.not_nil deny_alter.not_nil)
  ultimately show ?thesis
    unfolding builtinEngine_def using assms by (rule NewEngine_stable(2))
qed

text \<open>A statement none of the six rules rejects.\<close>

definition acceptable :: "Node \<Rightarrow> bool" where
  "acceptable n =
     (\<not> missingWhere ''UpdateStmt'' n \<and> \<not> missingWhere ''DeleteStmt'' n \<and> \<not> missingColumns n \<and>
      \<not> truncates n \<and> \<not> onTable [''DropStmt''] ''remove_type'' n \<and>
      \<not> onTable [''AlterTableStmt'', ''AlterTableMoveAllStmt''] ''objtype'' n)"

lemma builtinPolicy_acceptable:
  "(\<forall>p \<in> set builtinPolicy. \<not> snd p (newStatement (Some n))) \<longleftrightarrow> acceptable n"
  by (auto simp: builtinPolicy_def acceptable_def)

section \<open>The rules on parsed messages\<close>

text \<open>What the fields of a message say, in the terms of the parse tree.\<close>

definition holdsMessage :: "Message \<Rightarrow> string \<Rightarrow> bool" where
  "holdsMessage m name =
     (case set_field m name of
        Some (RSingular (MessageKind _)) \<Rightarrow> True
      | Some (RSingular (GroupKind _)) \<Rightarrow> True
      | _ \<Rightarrow> False)"

fun isMessage :: "Singular \<Rightarrow> bool" where
  "isMessage (MessageKind _) = True"
| "isMessage (GroupKind _) = True"
| "isMessage _ = False"

definition countMessages :: "Message \<Rightarrow> string \<Rightarrow> nat" where
  "countMessages m name =
     (case set_field m name of Some (RList items) \<Rightarrow> length (filter isMessage items) | _ \<Rightarrow> 0)"

definition enumName :: "Message \<Rightarrow> string \<Rightarrow> string option" where
  "enumName m name =
     (case set_field m name of
        Some (RSingular (EnumKind declared number)) \<Rightarrow>
          Some (case map_of declared number of None \<Rightarrow> '''' | Some x \<Rightarrow> x)
      | _ \<Rightarrow> None)"

lemma isMessage_converted: "snd (Value_Node (convertSingularValue s)) = isMessage s"
  by (cases s) (simp_all add: value_lits go_defs split: option.splits)

lemma singular_not_list [simp]: "value_kind (convertSingularValue s) \<noteq> ValueList"
  by (cases s) (simp_all add: value_lits split: option.splits)

lemma nodeItems_length: "length (nodeItems vs) = length (filter (\<lambda>v. snd (Value_Node v)) vs)"
  by (simp add: nodeItems_def)

lemma converted_reads:
  assumes "msg_isValid m" and "msg_fullName m \<noteq> pgQueryNodeName" and "convertMessage m = Some n"
  shows "has_node n name = holdsMessage m name"
    and "length (list_nodes n name) = countMessages m name"
    and "enum_field n name = enumName m name"
proof -
  note fm = field_map_converted(2) [OF assms]
  show "has_node n name = holdsMessage m name"
    by (auto simp: has_node_def holdsMessage_def fm value_lits
        split: option.splits Reflected.splits Singular.splits)
  show "length (list_nodes n name) = countMessages m name"
    by (auto simp: list_nodes_def countMessages_def fm convertList_map nodeItems_length filter_map
        comp_def isMessage_converted Value_List_def value_lits
        split: option.splits Reflected.splits Singular.splits)
  show "enum_field n name = enumName m name"
    by (auto simp: enum_field_def enumName_def fm value_lits
        split: option.splits Reflected.splits Singular.splits)
qed

text \<open>The statement a rule receives for a message, and the messages the theorems are about.\<close>

definition messageStatement :: "Message \<Rightarrow> Statement" where
  "messageStatement m = newStatement (convertPGNode (Some m))"

definition concrete :: "Message \<Rightarrow> bool" where
  "concrete m = (msg_isValid m \<and> msg_fullName m \<noteq> pgQueryNodeName)"

lemma concrete_converts:
  assumes "concrete m"
  obtains n where "messageStatement m = newStatement (Some n)" and "node_kind n = msg_name m"
    and "\<And>name. has_node n name = holdsMessage m name"
    and "\<And>name. length (list_nodes n name) = countMessages m name"
    and "\<And>name. enum_field n name = enumName m name"
proof -
  from assms have m: "msg_isValid m" "msg_fullName m \<noteq> pgQueryNodeName" by (simp_all add: concrete_def)
  note n = convertMessage_concrete [OF m]
  show thesis
    by (rule that [of "Node (msg_name m) (convertFields (msg_fields m))"]) (use n field_map_converted [OF m n] converted_reads [OF m n] in
      \<open>simp_all add: messageStatement_def convertPGNode_def\<close>)
qed

section \<open>Properties\<close>

lemma where_rules_decide:
  assumes "concrete m"
  shows "(Rejected (updateRequiresWhere_Evaluate (messageStatement m)) \<longleftrightarrow>
        msg_name m = ''UpdateStmt'' \<and> \<not> holdsMessage m ''where_clause'') \<and>
     (Rejected (deleteRequiresWhere_Evaluate (messageStatement m)) \<longleftrightarrow>
        msg_name m = ''DeleteStmt'' \<and> \<not> holdsMessage m ''where_clause'')"
  using assms
  by (auto elim!: concrete_converts
      simp: updateRequiresWhere_Evaluate_def deleteRequiresWhere_Evaluate_def builtin_names
        requireWhereClause_rejects missingWhere_def)

lemma insert_rule_decides:
  assumes "concrete m"
  shows "Rejected (insertRequiresColumns_Evaluate (messageStatement m)) \<longleftrightarrow>
     msg_name m = ''InsertStmt'' \<and> countMessages m ''cols'' = 0"
  using assms by (auto elim!: concrete_converts simp: insertRequiresColumns_rejects missingColumns_def
      simp flip: length_0_conv)

lemma ddl_rules_decide:
  assumes "concrete m"
  shows "(Rejected (denyTruncate_Evaluate (messageStatement m)) \<longleftrightarrow> msg_name m = ''TruncateStmt'') \<and>
     (Rejected (denyDropTable_Evaluate (messageStatement m)) \<longleftrightarrow>
        msg_name m = ''DropStmt'' \<and> enumName m ''remove_type'' \<in> {None, Some ''OBJECT_TABLE''}) \<and>
     (Rejected (denyAlterTable_Evaluate (messageStatement m)) \<longleftrightarrow>
        msg_name m \<in> {''AlterTableStmt'', ''AlterTableMoveAllStmt''} \<and>
        enumName m ''objtype'' \<in> {None, Some ''OBJECT_TABLE''})"
  using assms
  by (auto elim!: concrete_converts simp: denyTruncate_rejects truncates_def denyDropTable_rejects
      denyAlterTable_rejects onTable_def)

text \<open>
  C23: what the six rules decide, read off the parser's message. The two \<^verbatim>\<open>WHERE\<close> rules reject
  exactly the statements of their own kind whose message has no \<^verbatim>\<open>where_clause\<close>; the column rule
  exactly the \<^verbatim>\<open>INSERT\<close> statements whose column list is absent or empty; the definition rules
  every \<^verbatim>\<open>TRUNCATE\<close>, and every \<^verbatim>\<open>DROP\<close> and \<^verbatim>\<open>ALTER TABLE\<close> message whose object type is the table
  type or is not an enumeration at all. They allow every other statement.
\<close>

theorem builtin_rules_decide:
  assumes "concrete m"
  shows "(Rejected (updateRequiresWhere_Evaluate (messageStatement m)) \<longleftrightarrow>
        msg_name m = ''UpdateStmt'' \<and> \<not> holdsMessage m ''where_clause'') \<and>
     (Rejected (deleteRequiresWhere_Evaluate (messageStatement m)) \<longleftrightarrow>
        msg_name m = ''DeleteStmt'' \<and> \<not> holdsMessage m ''where_clause'') \<and>
     (Rejected (insertRequiresColumns_Evaluate (messageStatement m)) \<longleftrightarrow>
        msg_name m = ''InsertStmt'' \<and> countMessages m ''cols'' = 0) \<and>
     (Rejected (denyTruncate_Evaluate (messageStatement m)) \<longleftrightarrow> msg_name m = ''TruncateStmt'') \<and>
     (Rejected (denyDropTable_Evaluate (messageStatement m)) \<longleftrightarrow>
        msg_name m = ''DropStmt'' \<and> enumName m ''remove_type'' \<in> {None, Some ''OBJECT_TABLE''}) \<and>
     (Rejected (denyAlterTable_Evaluate (messageStatement m)) \<longleftrightarrow>
        msg_name m \<in> {''AlterTableStmt'', ''AlterTableMoveAllStmt''} \<and>
        enumName m ''objtype'' \<in> {None, Some ''OBJECT_TABLE''})"
  using where_rules_decide [OF assms] insert_rule_decides [OF assms] ddl_rules_decide [OF assms] by simp

theorem builtin_rules_decide_witness:
  "\<not> Rejected (updateRequiresWhere_Evaluate (messageStatement (Message True ''pg_query.UpdateStmt'' ''UpdateStmt'' None
      [MessageField ''where_clause'' True (RSingular (MessageKind (Message True ''pg_query.Node'' ''Node'' None [])))]))) \<and>
   Rejected (insertRequiresColumns_Evaluate (messageStatement
     (Message True ''pg_query.InsertStmt'' ''InsertStmt'' None [MessageField ''cols'' True (RList [])]))) \<and>
   \<not> Rejected (denyDropTable_Evaluate (messageStatement (Message True ''pg_query.DropStmt'' ''DropStmt'' None
      [MessageField ''remove_type'' True (RSingular (EnumKind [(42, ''OBJECT_TABLE''), (52, ''OBJECT_VIEW'')] 52))])))"
  using builtin_rules_decide [of "Message True ''pg_query.UpdateStmt'' ''UpdateStmt'' None
      [MessageField ''where_clause'' True (RSingular (MessageKind (Message True ''pg_query.Node'' ''Node'' None [])))]"]
    builtin_rules_decide [of "Message True ''pg_query.InsertStmt'' ''InsertStmt'' None
      [MessageField ''cols'' True (RList [])]"]
    builtin_rules_decide [of "Message True ''pg_query.DropStmt'' ''DropStmt'' None
      [MessageField ''remove_type'' True (RSingular (EnumKind [(42, ''OBJECT_TABLE''), (52, ''OBJECT_VIEW'')] 52))]"]
  by (simp add: concrete_def pgQueryNodeName_def holdsMessage_def countMessages_def enumName_def set_field_def)

end
