(* ===== verification/Guard_Samples.thy ===== *)
theory Guard_Samples
  imports Builtin_Rules
begin

text \<open>
  Concrete parse trees, backends and collaborators on which the witnesses evaluate the model:
  small statements in the shape the parser delivers them, an engine without sinks, one whose
  sinks fail and panic, and a context that is canceled.
\<close>

section \<open>Concrete parse trees\<close>

definition stmtMsg :: "string \<Rightarrow> MessageField list \<Rightarrow> Message" where
  "stmtMsg name fs = Message True (''pg_query.'' @ name) name None fs"

definition nodeMsg :: "Message \<Rightarrow> Message" where
  "nodeMsg inner = Message True ''pg_query.Node'' ''Node'' (Some inner) []"

definition setField :: "string \<Rightarrow> Singular \<Rightarrow> MessageField" where
  "setField name s = MessageField name True (RSingular s)"

definition setList :: "string \<Rightarrow> Message list \<Rightarrow> MessageField" where
  "setList name ms = MessageField name True (RList (map MessageKind ms))"

text \<open>\<^verbatim>\<open>DELETE FROM t\<close> with and without a condition, and the same below a CTE.\<close>

definition deleteMsg :: "bool \<Rightarrow> Message" where
  "deleteMsg cond = stmtMsg ''DeleteStmt''
     [MessageField ''where_clause'' cond (RSingular (MessageKind (nodeMsg (stmtMsg ''ColumnRef'' []))))]"

definition cteMsg :: "Message \<Rightarrow> Message" where
  "cteMsg query = stmtMsg ''SelectStmt''
     [setField ''with_clause'' (MessageKind (stmtMsg ''WithClause''
        [setList ''ctes'' [nodeMsg (stmtMsg ''CommonTableExpr'' [setField ''ctequery'' (MessageKind (nodeMsg query))])]]))]"

definition sampleBackend :: backend where
  "sampleBackend sql =
     (if sql = ''DELETE FROM t WHERE c'' then Inr [Some (nodeMsg (deleteMsg True))]
      else if sql = ''DELETE FROM t'' then Inr [Some (nodeMsg (deleteMsg False))]
      else if sql = ''WITH d AS (DELETE FROM t) SELECT'' then Inr [Some (nodeMsg (cteMsg (deleteMsg False)))]
      else Inl (Foreign ''syntax error''))"

definition noSinks :: "'w EngineOptions" where
  "noSinks = \<lparr>opt_Metrics = None, opt_Logger = None\<rparr>"

definition start :: "(unit, call) sys" where
  "start = \<lparr>world = (), calls = []\<rparr>"

text \<open>A context whose deadline has passed.\<close>

definition Expired :: "'w Context" where
  "Expired = \<lparr>ctx_Err = retE (Some CtxDeadline), ctx_values = (\<lambda>_. None)\<rparr>"

text \<open>Sinks behind pointers: the metrics sink answers with an error, the logger panics.\<close>

definition badSinks :: "'w EngineOptions" where
  "badSinks = \<lparr>
     opt_Metrics = Some \<lparr>dyn_kind = Pointer, dyn_isNil = False,
       dyn_val = \<lparr>RecordValidation = (\<lambda>_. retE (Some (Foreign ''full'')))\<rparr>\<rparr>,
     opt_Logger = Some \<lparr>dyn_kind = Pointer, dyn_isNil = False,
       dyn_val = \<lparr>LogValidation = (\<lambda>_. panicE ''closed'')\<rparr>\<rparr>\<rparr>"

definition sampleEngine :: "unit Engine" where
  "sampleEngine = builtinEngine badSinks"

interpretation sample: policy_engine sampleEngine builtinPolicy
  unfolding sampleEngine_def by (rule builtin.policy_engine_axioms)

text \<open>A context that is canceled after a number of polls, which the world counts.\<close>

definition Countdown :: "nat \<Rightarrow> nat Context" where
  "Countdown n = \<lparr>ctx_Err = (\<lambda>w. (Ret (if w < n then None else Some CtxCanceled), Suc w)),
     ctx_values = (\<lambda>_. None)\<rparr>"

definition countdownEngine :: "nat Engine" where
  "countdownEngine = builtinEngine badSinks"

end
