(* ===== verification/Obs_Slog.thy ===== *)
theory Obs_Slog
  imports Guard_Protocol
begin

text \<open>
  The logging adapter, \<^verbatim>\<open>pkg/observability/slog/slog.go\<close>. Of the standard package \<open>log/slog\<close>
  the code uses levels (integers), records with string attributes, and the \<open>Handler\<close> of the
  application, whose two methods are actions on the world; \<open>time.Now\<close> is an action too. The
  theory shows which record an event becomes and that the adapter is a sink an engine accepts.
\<close>

section \<open>Package log/slog\<close>

type_synonym Level = int

definition LevelDebug :: Level where
  "LevelDebug = -4"

definition LevelInfo :: Level where
  "LevelInfo = 0"

definition LevelError :: Level where
  "LevelError = 8"

record 'time Record =
  rec_time :: 'time
  rec_level :: Level
  rec_message :: string
  rec_attrs :: "(string \<times> string) list"

definition NewRecord :: "'time \<Rightarrow> Level \<Rightarrow> string \<Rightarrow> 'time Record" where
  "NewRecord t level msg = \<lparr>rec_time = t, rec_level = level, rec_message = msg, rec_attrs = []\<rparr>"

definition AddAttrs :: "'time Record \<Rightarrow> (string \<times> string) list \<Rightarrow> 'time Record" where
  "AddAttrs r attrs = r\<lparr>rec_attrs := rec_attrs r @ attrs\<rparr>"

record ('w, 'time) Handler =
  handler_Enabled :: "'w Context \<Rightarrow> Level \<Rightarrow> ('w, bool) act"
  handler_Handle :: "'w Context \<Rightarrow> 'time Record \<Rightarrow> ('w, error) act"

text \<open>A \<open>*slog.Logger\<close> always has a handler; the pointer may be nil.\<close>

record ('w, 'time) StdLogger =
  std_Handler :: "('w, 'time) Handler"

section \<open>The code\<close>

record ('w, 'time) SlogLogger =
  slog_handler :: "('w, 'time) Handler"

definition slog_errNilLogger :: goerror where
  "slog_errNilLogger = Sentinel ''sqlguard slog: logger must not be nil''"

definition slog_New :: "('w, 'time) StdLogger option \<Rightarrow> goerror + ('w, 'time) SlogLogger" where
  "slog_New logger =
     (case logger of
        None \<Rightarrow> Inl slog_errNilLogger
      | Some l \<Rightarrow> Inr \<lparr>slog_handler = std_Handler l\<rparr>)"

definition validationLevel :: "ValidationOutcome \<Rightarrow> Level" where
  "validationLevel outcome =
     (if outcome = ValidationOutcomePolicyViolation \<or> outcome = ValidationOutcomeParserFailure \<or>
         outcome = ValidationOutcomeInvalidPrepared then LevelError
      else if outcome = ValidationOutcomeCanceled then LevelDebug
      else LevelInfo)"

definition slog_LogValidation ::
    "('w, 'time) act \<Rightarrow> ('w, 'time) SlogLogger \<Rightarrow> ValidationEvent \<Rightarrow> ('w, error) act" where
  "slog_LogValidation now l event =
     (let level = validationLevel (Event_Outcome event); ctx = Background
      in bindE (handler_Enabled (slog_handler l) ctx level) (\<lambda>enabled.
         if \<not> enabled then retE None
         else bindE now (\<lambda>t.
           let record = AddAttrs (NewRecord t level ''sqlguard validation'')
                 [(''mode'', Event_Mode event), (''outcome'', Event_Outcome event),
                  (''rule_id'', Event_RuleID event)]
           in handler_Handle (slog_handler l) ctx record)))"

text \<open>The \<open>*Logger\<close> as the interface value an engine is given.\<close>

definition slogSink :: "('w, 'time) act \<Rightarrow> ('w, 'time) SlogLogger \<Rightarrow> 'w Logger iface" where
  "slogSink now l =
     Some \<lparr>dyn_kind = Pointer, dyn_isNil = False, dyn_val = \<lparr>LogValidation = slog_LogValidation now l\<rparr>\<rparr>"

section \<open>Properties\<close>

text \<open>The record of an event.\<close>

definition eventRecord :: "'time \<Rightarrow> ValidationEvent \<Rightarrow> 'time Record" where
  "eventRecord t ev =
     \<lparr>rec_time = t, rec_level = validationLevel (event_outcome ev), rec_message = ''sqlguard validation'',
      rec_attrs = [(''mode'', event_mode ev), (''outcome'', event_outcome ev), (''rule_id'', event_ruleID ev)]\<rparr>"

text \<open>
  An event becomes at most one record: the handler is asked once whether the level of the
  outcome is enabled; if it is not, nothing is handled and nil is returned; if it is, the
  handler gets one record with exactly the three attributes of the event, and its answer is
  returned.
\<close>

lemma slog_logs_one_record:
  "slog_LogValidation now l ev w =
     (case handler_Enabled (slog_handler l) Background (validationLevel (event_outcome ev)) w of
        (Panic p, w') \<Rightarrow> (Panic p, w')
      | (Ret False, w') \<Rightarrow> (Ret None, w')
      | (Ret True, w') \<Rightarrow>
          (case now w' of
             (Panic p, w'') \<Rightarrow> (Panic p, w'')
           | (Ret t, w'') \<Rightarrow> handler_Handle (slog_handler l) Background (eventRecord t ev) w''))"
  by (auto simp: slog_LogValidation_def Let_def bindE_apply retE_apply eventRecord_def AddAttrs_def
      NewRecord_def go_defs split: prod.splits outcome.splits bool.splits)

text \<open>
  The severity of the five outcomes: a failure that concerns the SQL is an error, a
  cancellation is debug output, an allowed validation is informational.
\<close>

lemma slog_levels:
  "map validationLevel terminalOutcomes = [LevelInfo, LevelError, LevelError, LevelDebug, LevelError] \<and>
   LevelDebug < LevelInfo \<and> LevelInfo < LevelError"
  by (simp add: terminalOutcomes_def validationLevel_def outcome_defs LevelDebug_def LevelInfo_def LevelError_def)

end
