(* ===== verification/Obs_Prometheus.thy ===== *)
theory Obs_Prometheus
  imports Guard_Protocol
begin

text \<open>
  The metrics adapter, \<^verbatim>\<open>pkg/observability/prometheus/prometheus.go\<close>. The Prometheus client is
  not part of the module: \<open>isValidMetricName\<close> (package \<open>model\<close>), \<open>newCounterVec\<close> and
  \<open>incWithLabels\<close> (\<open>WithLabelValues(...).Inc()\<close> on a vector of type \<open>'v\<close>) are parameters of the
  definitions that use them, and a \<open>Registerer\<close> is a collaborator whose method is an action.
\<close>

section \<open>The code\<close>

record CounterOpts =
  opts_Name :: string
  opts_Help :: string

record ('w, 'v) Registerer =
  Register :: "'v \<Rightarrow> ('w, error) act"

record ('w, 'v) PromConfig =
  cfg_Registerer :: "('w, 'v) Registerer iface"
  cfg_Service :: string
  cfg_MetricName :: string

record 'v PromMetrics =
  prom_service :: string
  prom_validations :: 'v

definition defaultMetricName :: string where
  "defaultMetricName = ''sqlguard_validations_total''"

definition errNilRegisterer :: goerror where
  "errNilRegisterer = Sentinel ''sqlguard prometheus: registerer must not be nil''"

definition errEmptyService :: goerror where
  "errEmptyService = Sentinel ''sqlguard prometheus: service must not be empty''"

definition errInvalidMetricName :: goerror where
  "errInvalidMetricName = Sentinel ''sqlguard prometheus: metric name is invalid''"

definition isNilRegisterer :: "('w, 'v) Registerer iface \<Rightarrow> bool" where
  "isNilRegisterer registerer =
     (case registerer of
        None \<Rightarrow> True
      | Some value \<Rightarrow> if nilable_kind (dyn_kind value) then dyn_isNil value else False)"

definition prom_New ::
    "(string \<Rightarrow> bool) \<Rightarrow> (CounterOpts \<Rightarrow> string list \<Rightarrow> 'v) \<Rightarrow> ('w, 'v) PromConfig \<Rightarrow>
     ('w, goerror + 'v PromMetrics) act" where
  "prom_New isValidMetricName newCounterVec config =
     (if isNilRegisterer (cfg_Registerer config) then retE (Inl errNilRegisterer)
      else if cfg_Service config = '''' then retE (Inl errEmptyService)
      else let metricName = cfg_MetricName config;
               metricName = (if metricName = '''' then defaultMetricName else metricName)
      in if \<not> isValidMetricName metricName then retE (Inl errInvalidMetricName)
      else let validations = newCounterVec
                 \<lparr>opts_Name = metricName,
                  opts_Help = ''Total number of postgres-sqlguard validation outcomes.''\<rparr>
                 [''service'', ''mode'', ''outcome'', ''rule_id'']
      in bindE (case cfg_Registerer config of
                  None \<Rightarrow> panicE ''invalid memory address or nil pointer dereference''
                | Some r \<Rightarrow> Register (dyn_val r) validations) (\<lambda>err.
           case err of
             Some cause \<Rightarrow> retE (Inl (Wrapped ''sqlguard prometheus: register metric: '' cause))
           | None \<Rightarrow> retE (Inr \<lparr>prom_service = cfg_Service config, prom_validations = validations\<rparr>)))"

definition prom_RecordValidation ::
    "('v \<Rightarrow> string list \<Rightarrow> ('w, unit) act) \<Rightarrow> 'v PromMetrics \<Rightarrow> ValidationEvent \<Rightarrow> ('w, error) act" where
  "prom_RecordValidation incWithLabels m event =
     bindE (incWithLabels (prom_validations m)
              [prom_service m, Event_Mode event, Event_Outcome event, Event_RuleID event])
       (\<lambda>_. retE None)"

text \<open>The \<open>*Metrics\<close> as the interface value an engine is given.\<close>

definition promSink ::
    "('v \<Rightarrow> string list \<Rightarrow> ('w, unit) act) \<Rightarrow> 'v PromMetrics \<Rightarrow> 'w Metrics iface" where
  "promSink incWithLabels m =
     Some \<lparr>dyn_kind = Pointer, dyn_isNil = False,
           dyn_val = \<lparr>RecordValidation = prom_RecordValidation incWithLabels m\<rparr>\<rparr>"

section \<open>Properties\<close>


end
