(* ===== verification/Guard_Sinks.thy ===== *)
theory Guard_Sinks
  imports Guard_Samples Obs_Slog Obs_Prometheus
begin

text \<open>
  The engine together with the observability adapters. For an engine of deterministic rules
  and a context that stays active without acting on the world, the only thing a validation
  does to the world is to emit one event, and the event is a function of the result. With the
  Prometheus and the slog adapter as sinks this is one increment of one counter followed by at
  most one log record.
\<close>

section \<open>The world after a validation\<close>

definition emitWorld :: "'w Engine \<Rightarrow> ValidationEvent \<Rightarrow> 'w \<Rightarrow> 'w" where
  "emitWorld e ev w =
     (let w' = (case engine_metrics e of None \<Rightarrow> w | Some d \<Rightarrow> snd (RecordValidation (dyn_val d) ev w))
      in case engine_logger e of None \<Rightarrow> w' | Some d \<Rightarrow> snd (LogValidation (dyn_val d) ev w'))"

lemma world_extcall: "world (snd (extcall c f s)) = snd (f (world s))"
  by (simp add: extcall_def split: prod.split)

lemma emit_world:
  "world (snd (emitMetrics m ev t)) =
     (case m of None \<Rightarrow> world t | Some d \<Rightarrow> snd (RecordValidation (dyn_val d) ev (world t)))"
  "world (snd (emitLogger l ev t)) =
     (case l of None \<Rightarrow> world t | Some d \<Rightarrow> snd (LogValidation (dyn_val d) ev (world t)))"
  by (simp_all add: emitMetrics_def emitLogger_def isolateObservabilityFailure_def recoverE_apply
      world_extcall invoke_def split: option.split)

lemma finishValidation_world [simp]:
  "world (snd (finishValidation e outc ruleID result s)) = emitWorld e (terminalEvent outc ruleID) (world s)"
  by (simp add: finishValidation_def Let_def metrics_sink.emit_then logger_sink.emit_then emitWorld_def emit_world
      cong: option.case_cong)

text \<open>A context that answers nil and leaves the world alone.\<close>

definition still :: "'w Context \<Rightarrow> bool" where
  "still ctx = (\<forall>w. ctx_Err ctx w = (Ret None, w))"

lemma still_Background [simp]: "still Background"
  by (simp add: still_def Background_def retE_apply)

lemma still_active: "still ctx \<Longrightarrow> active ctx"
  by (simp add: still_def active_def)

lemma still_ctxErr:
  assumes "still ctx"
  obtains t where "ctxErr ctx s = (Ret None, t)" and "world t = world s"
  using ctxErrE [of ctx s "Ret None" "world s"] assms by (auto simp: still_def)

text \<open>The event that reports a result of such a run.\<close>

definition eventOf :: "error \<Rightarrow> ValidationEvent" where
  "eventOf err =
     (case err of
        None \<Rightarrow> terminalEvent ValidationOutcomeAllowed ''''
      | Some (ViolationErr v) \<Rightarrow> terminalEvent ValidationOutcomePolicyViolation (Violation_RuleID v)
      | Some (ParseErr _) \<Rightarrow> terminalEvent ValidationOutcomeParserFailure ''''
      | Some _ \<Rightarrow> terminalEvent ValidationOutcomeInvalidPrepared '''')"

lemma eventOf_violation [simp]:
  "eventOf (Some (ViolationErr (newViolation ruleID))) = terminalEvent ValidationOutcomePolicyViolation ruleID"
  by (simp add: eventOf_def newViolation_def Violation_RuleID_def)

lemma registered_world:
  assumes "rule_policy (reg_rule registration) ruleID rejects"
  obtains t where "callEvaluate registration ctx st s = (Ret (if rejects st then Reject else Allow), t)"
    and "world t = world s"
  using extcallE [where f = "invoke (\<lambda>r. rule_Evaluate r ctx st) (reg_rule registration)",
      OF rule_policy.Evaluate [OF assms, of ctx st "world s"]]
  unfolding callEvaluate_def by blast

lemma evaluateChecks_world:
  assumes "still ctx" and "list_all2 (\<lambda>(reg, st) (p, st'). registers reg p \<and> st = st') cs ps"
  shows "world (snd (evaluateChecks e ctx cs s)) =
     (case firstViolation ps of None \<Rightarrow> world s | Some err \<Rightarrow> emitWorld e (eventOf (Some err)) (world s))"
  using assms(2)
proof (induction cs ps arbitrary: s rule: list_all2_induct)
  case Nil
  then show ?case by (simp add: firstViolation_def)
next
  case (Cons c cs p ps)
  obtain reg st where c: "c = (reg, st)" by fastforce
  obtain ruleID rej where p: "p = ((ruleID, rej), st)" using Cons c by (cases p) auto
  from Cons c p have reg: "reg_ruleID reg = ruleID" "rule_policy (reg_rule reg) ruleID rej"
    by (auto simp: registers_def)
  obtain t where t: "ctxErr ctx s = (Ret None, t)" "world t = world s" by (rule still_ctxErr [OF assms(1)])
  obtain u where u: "callEvaluate reg ctx st t = (Ret (if rej st then Reject else Allow), u)" "world u = world t"
    by (rule registered_world [OF reg(2)])
  note steps = bindE_Ret [where m = "ctxErr ctx", OF t(1)]
    bindE_Ret [where m = "callEvaluate reg ctx st", OF u(1)]
  show ?case
    using Cons.IH [of u] by (simp add: c p steps finish_then reg firstViolation_def t(2) u(2) cong: option.case_cong)
qed

lemma policyDecision_violation: "policyDecision pol r = Some err \<Longrightarrow> \<exists>ruleID. err = ViolationErr (newViolation ruleID)"
  by (auto simp: policyDecision_def firstViolation_def)

text \<open>A collection of runs whose effect on the world is the event of their result.\<close>

definition observed :: "'w Engine \<Rightarrow> ('w, call) sys \<Rightarrow> error outcome \<times> ('w, call) sys \<Rightarrow> bool" where
  "observed e s result =
     (\<exists>err. fst result = Ret err \<and> world (snd result) = emitWorld e (eventOf err) (world s))"

lemma ValidatePrepared_observed:
  assumes "policy_engine e pol" and "still ctx" and "prepared_result p \<noteq> None"
  shows "observed e s (ValidatePrepared e ctx p s)"
proof -
  obtain t where t: "ctxErr ctx s = (Ret None, t)" "world t = world s" by (rule still_ctxErr [OF assms(2)])
  let ?roots = "StatementSequence (prepared_result p)"
  note cs = policy_engine.checks_policy [OF assms(1), of ?roots]
    and decided = deciding_engine.checks_decided [OF policy_deciding [OF assms(1)], of ?roots]
  from evaluateChecks_policy [OF still_active [OF assms(2)] decided, of e t]
    evaluateChecks_world [OF assms(2) cs, of e t] obtain u where
    u: "evaluateChecks e ctx (checks e ?roots) t = (Ret (case policyDecision pol (prepared_result p) of
          None \<Rightarrow> None | Some err \<Rightarrow> Some (Some err)), u)"
      "world u = (case policyDecision pol (prepared_result p) of
          None \<Rightarrow> world t | Some err \<Rightarrow> emitWorld e (eventOf (Some err)) (world t))"
    by (auto simp: policyDecision_def)
  note steps = bindE_Ret [where m = "ctxErr ctx", OF t(1)]
    bindE_Ret [where m = "evaluateChecks e ctx (checks e ?roots)", OF u(1)]
  show ?thesis
    by (cases "policyDecision pol (prepared_result p)")
       (use assms(3) in \<open>auto simp: ValidatePrepared_def evaluateStatements_checks steps observed_def
         u(2) t(2) eventOf_def retE_apply\<close>)
qed

lemma Validate_observed:
  assumes "policy_engine e pol" and "still ctx"
  shows "observed e s (Validate b e ctx sql s)"
proof -
  obtain t where t: "ctxErr ctx s = (Ret None, t)" "world t = world s" by (rule still_ctxErr [OF assms(2)])
  obtain u where u: "callParse b sql t = (Ret (Parse b sql), u)" "world u = world t"
    using extcallE [where f = "retE (Parse b sql)" and c = "CallParse sql", OF retE_apply]
    by (metis callParse_def)
  obtain v where v: "ctxErr ctx u = (Ret None, v)" "world v = world u" by (rule still_ctxErr [OF assms(2)])
  note steps = bindE_Ret [where m = "ctxErr ctx", OF t(1)] bindE_Ret [where m = "callParse b sql", OF u(1)]
    bindE_Ret [where m = "ctxErr ctx", OF v(1)]
  from Parse_cases [of b sql] show ?thesis
  proof (elim disjE exE conjE)
    fix tree
    let ?p = "\<lparr>prepared_result = Some \<lparr>result_statements = filter (\<lambda>n. n \<noteq> None) (map convertPGNode tree)\<rparr>\<rparr>"
    assume "Parse b sql = (Some \<lparr>result_statements = filter (\<lambda>n. n \<noteq> None) (map convertPGNode tree)\<rparr>, None)"
    then have "Validate b e ctx sql s = ValidatePrepared e ctx ?p v"
      by (simp add: Validate_def Prepare_def bindE_assoc steps)
    with ValidatePrepared_observed [OF assms, of ?p v] show ?thesis
      by (simp add: observed_def t(2) u(2) v(2))
  qed (simp add: Validate_def Prepare_def bindE_assoc steps finish_then retE_apply observed_def eventOf_def
      translateParserError_def Let_def as_ParserError_def Error_Category_def t(2) u(2) v(2))
qed

section \<open>Both adapters\<close>

lemma adapters_emit:
  assumes "engine_metrics e = promSink inc m" and "engine_logger e = slogSink now l"
  shows "emitWorld e ev w = snd (slog_LogValidation now l ev
     (snd (inc (prom_validations m) [prom_service m, event_mode ev, event_outcome ev, event_ruleID ev] w)))"
  by (auto simp: emitWorld_def assms promSink_def slogSink_def prom_RecordValidation_def bindE_apply
      go_defs retE_apply split: prod.splits outcome.splits)

section \<open>Properties\<close>


text \<open>A world that lists the incremented counters and the handled records.\<close>

type_synonym observations = "string list list \<times> nat Record list"

definition countLabels :: "unit \<Rightarrow> string list \<Rightarrow> (observations, unit) act" where
  "countLabels v labels = (\<lambda>(counted, logged). (Ret (), (counted @ [labels], logged)))"

definition keepRecords :: "(observations, nat) Handler" where
  "keepRecords =
     \<lparr>handler_Enabled = (\<lambda>_ level. retE (LevelInfo \<le> level)),
      handler_Handle = (\<lambda>_ r (counted, logged). (Ret None, (counted, logged @ [r])))\<rparr>"

definition observedEngine :: "observations Engine" where
  "observedEngine = builtinEngine
     \<lparr>opt_Metrics = promSink countLabels \<lparr>prom_service = ''api'', prom_validations = ()\<rparr>,
      opt_Logger = slogSink (retE 7) \<lparr>slog_handler = keepRecords\<rparr>\<rparr>"


end
