(* ===== verification/Parser_Store.thy ===== *)
theory Parser_Store
  imports Guard_Statement Parser_Convert
begin

text \<open>
  The syntax tree in memory. In Go a node is a pointer and its fields, lists and bytes are
  slices, so whether a tree is immutable depends on who holds which array. This theory models
  the accessors of \<^verbatim>\<open>node.go\<close>, \<^verbatim>\<open>parser.go\<close> and \<^verbatim>\<open>statement.go\<close> and the conversion of \<^verbatim>\<open>pgquery.go\<close>
  again, on an explicit store of arrays: the conversion builds the tree in memory of its own, the accessors hand out
  arrays that nobody else holds, and a client that overwrites every array it can reach
  changes nothing it reads later. It justifies \<open>Parser_Node\<close>, where the tree is a value.
\<close>

section \<open>The store\<close>

type_synonym ref = nat

text \<open>
  A slice is nil or refers to an array; the slices of the package always cover their arrays
  from the first element to the last.
\<close>

type_synonym slice = "ref option"

record svalue =
  sv_kind :: ValueKind
  sv_boolValue :: bool
  sv_intValue :: "64 word"
  sv_uintValue :: "64 word"
  sv_floatValue :: "64 word"
  sv_stringValue :: string
  sv_bytesValue :: slice
  sv_nodeValue :: "ref option"
  sv_listValue :: slice

record sfield =
  sf_name :: string
  sf_value :: svalue

datatype cell =
    NodeCell Kind slice
  | FieldArray "sfield list"
  | ValueArray "svalue list"
  | ByteArray "8 word list"
  | NodeArray "ref option list"

record store =
  cells :: "ref \<Rightarrow> cell option"
  fresh :: ref

definition alloc :: "cell \<Rightarrow> store \<Rightarrow> ref \<times> store" where
  "alloc c st = (fresh st, \<lparr>cells = (cells st)(fresh st \<mapsto> c), fresh = Suc (fresh st)\<rparr>)"

text \<open>The elements a slice shows at the moment.\<close>

definition fieldsAt :: "store \<Rightarrow> slice \<Rightarrow> sfield list" where
  "fieldsAt st sl = (case Option.bind sl (cells st) of Some (FieldArray xs) \<Rightarrow> xs | _ \<Rightarrow> [])"

definition valuesAt :: "store \<Rightarrow> slice \<Rightarrow> svalue list" where
  "valuesAt st sl = (case Option.bind sl (cells st) of Some (ValueArray xs) \<Rightarrow> xs | _ \<Rightarrow> [])"

definition bytesAt :: "store \<Rightarrow> slice \<Rightarrow> 8 word list" where
  "bytesAt st sl = (case Option.bind sl (cells st) of Some (ByteArray xs) \<Rightarrow> xs | _ \<Rightarrow> [])"

definition nodesAt :: "store \<Rightarrow> slice \<Rightarrow> ref option list" where
  "nodesAt st sl = (case Option.bind sl (cells st) of Some (NodeArray xs) \<Rightarrow> xs | _ \<Rightarrow> [])"

text \<open>\<open>append([]T(nil), xs...)\<close>: a new array, or nil when there is nothing to copy.\<close>

definition clone :: "('x list \<Rightarrow> cell) \<Rightarrow> 'x list \<Rightarrow> store \<Rightarrow> slice \<times> store" where
  "clone arr xs st =
     (if xs = [] then (None, st) else (case alloc (arr xs) st of (a, st') \<Rightarrow> (Some a, st')))"

text \<open>\<open>make([]T, 0, n)\<close> and then one \<open>append\<close> per element: an array of its own even when empty.\<close>

definition build :: "('x list \<Rightarrow> cell) \<Rightarrow> 'x list \<Rightarrow> store \<Rightarrow> slice \<times> store" where
  "build arr xs st = (case alloc (arr xs) st of (a, st') \<Rightarrow> (Some a, st'))"

section \<open>Accessors\<close>

definition szeroValue :: svalue where
  "szeroValue = \<lparr>sv_kind = ValueInvalid, sv_boolValue = False, sv_intValue = 0, sv_uintValue = 0, sv_floatValue = 0,
     sv_stringValue = [], sv_bytesValue = None, sv_nodeValue = None, sv_listValue = None\<rparr>"

definition Node_KindS :: "store \<Rightarrow> ref option \<Rightarrow> Kind" where
  "Node_KindS st n =
     (case n of None \<Rightarrow> [] | Some r \<Rightarrow> (case cells st r of Some (NodeCell k fl) \<Rightarrow> k | _ \<Rightarrow> []))"

definition nodeFields :: "store \<Rightarrow> ref \<Rightarrow> sfield list" where
  "nodeFields st r = (case cells st r of Some (NodeCell k fl) \<Rightarrow> fieldsAt st fl | _ \<Rightarrow> [])"

fun find_fieldS :: "sfield list \<Rightarrow> string \<Rightarrow> svalue \<times> bool" where
  "find_fieldS [] name = (szeroValue, False)"
| "find_fieldS (field # rest) name =
     (if sf_name field = name then (sf_value field, True) else find_fieldS rest name)"

definition Node_FieldS :: "store \<Rightarrow> ref option \<Rightarrow> string \<Rightarrow> svalue \<times> bool" where
  "Node_FieldS st n name =
     (case n of None \<Rightarrow> (szeroValue, False) | Some r \<Rightarrow> find_fieldS (nodeFields st r) name)"

definition Node_FieldsS :: "ref option \<Rightarrow> store \<Rightarrow> slice \<times> store" where
  "Node_FieldsS n st =
     (case n of None \<Rightarrow> (None, st) | Some r \<Rightarrow> clone FieldArray (nodeFields st r) st)"

definition Value_NodeS :: "svalue \<Rightarrow> ref option \<times> bool" where
  "Value_NodeS v = (sv_nodeValue v, sv_kind v = ValueNode)"

definition Value_BytesS :: "svalue \<Rightarrow> store \<Rightarrow> (slice \<times> bool) \<times> store" where
  "Value_BytesS v st =
     (if sv_kind v \<noteq> ValueBytes then ((None, False), st)
      else (case clone ByteArray (bytesAt st (sv_bytesValue v)) st of (copy, st') \<Rightarrow> ((copy, True), st')))"

definition Value_ListS :: "svalue \<Rightarrow> store \<Rightarrow> (slice \<times> bool) \<times> store" where
  "Value_ListS v st =
     (if sv_kind v \<noteq> ValueList then ((None, False), st)
      else (case clone ValueArray (valuesAt st (sv_listValue v)) st of (copy, st') \<Rightarrow> ((copy, True), st')))"

text \<open>\<open>Statements\<close> of a result whose slice of statements is given.\<close>

definition Result_StatementsS :: "slice option \<Rightarrow> store \<Rightarrow> slice \<times> store" where
  "Result_StatementsS r st =
     (case r of None \<Rightarrow> (None, st) | Some statements \<Rightarrow> clone NodeArray (nodesAt st statements) st)"

text \<open>The two accessors of the statement view that return slices; a \<open>sqlguard.Node\<close> is its pointer.\<close>

definition GuardNode_valueS :: "store \<Rightarrow> ref option \<Rightarrow> string \<Rightarrow> svalue \<times> bool" where
  "GuardNode_valueS st n name = (if n = None then (szeroValue, False) else Node_FieldS st n name)"

definition GuardNode_BytesS :: "ref option \<Rightarrow> string \<Rightarrow> store \<Rightarrow> (slice \<times> bool) \<times> store" where
  "GuardNode_BytesS n name st =
     (case GuardNode_valueS st n name of
        (value, ok) \<Rightarrow> if \<not> ok then ((None, False), st) else Value_BytesS value st)"

fun collectChildrenS :: "ref option list \<Rightarrow> svalue list \<Rightarrow> ref option list" where
  "collectChildrenS children [] = children"
| "collectChildrenS children (item # rest) =
     (case Value_NodeS item of
        (child, isNode) \<Rightarrow> collectChildrenS (if isNode then children @ [child] else children) rest)"

definition GuardNode_ChildrenS :: "ref option \<Rightarrow> string \<Rightarrow> store \<Rightarrow> slice \<times> store" where
  "GuardNode_ChildrenS n name st =
     (case GuardNode_valueS st n name of
        (value, ok) \<Rightarrow>
          if \<not> ok then (None, st)
          else (case Value_ListS value st of
                  ((values, ok), st') \<Rightarrow>
                    if \<not> ok then (None, st')
                    else build NodeArray (collectChildrenS [] (valuesAt st' values)) st'))"

section \<open>Conversion\<close>

text \<open>The composite literals of \<open>Value\<close>.\<close>

definition sval :: "ValueKind \<Rightarrow> svalue" where
  "sval k = szeroValue\<lparr>sv_kind := k\<rparr>"

fun convertMessageS :: "Message \<Rightarrow> store \<Rightarrow> ref option \<times> store"
  and convertFieldsS :: "MessageField list \<Rightarrow> store \<Rightarrow> sfield list \<times> store"
  and convertValueS :: "Reflected \<Rightarrow> store \<Rightarrow> svalue \<times> store"
  and convertListS :: "Singular list \<Rightarrow> store \<Rightarrow> svalue list \<times> store"
  and convertSingularValueS :: "Singular \<Rightarrow> store \<Rightarrow> svalue \<times> store" where
  "convertMessageS (Message isValid fullName name oneof declaredFields) st =
     (if \<not> isValid then (None, st)
      else if fullName = pgQueryNodeName
      then (case oneof of None \<Rightarrow> (None, st) | Some inner \<Rightarrow> convertMessageS inner st)
      else case convertFieldsS declaredFields st of
             (fs, st1) \<Rightarrow> (case build FieldArray fs st1 of
             (fl, st2) \<Rightarrow> (case alloc (NodeCell name fl) st2 of (r, st3) \<Rightarrow> (Some r, st3))))"
| "convertFieldsS [] st = ([], st)"
| "convertFieldsS (MessageField name has source # rest) st =
     (if \<not> has then convertFieldsS rest st
      else case convertValueS source st of
             (v, st1) \<Rightarrow> (case convertFieldsS rest st1 of
             (fs, st2) \<Rightarrow> (\<lparr>sf_name = name, sf_value = v\<rparr> # fs, st2)))"
| "convertValueS (RList list) st =
     (case convertListS list st of
        (vs, st1) \<Rightarrow> (case build ValueArray vs st1 of
        (values, st2) \<Rightarrow> ((sval ValueList)\<lparr>sv_listValue := values\<rparr>, st2)))"
| "convertValueS (RSingular source) st = convertSingularValueS source st"
| "convertListS [] st = ([], st)"
| "convertListS (item # rest) st =
     (case convertSingularValueS item st of
        (v, st1) \<Rightarrow> (case convertListS rest st1 of (vs, st2) \<Rightarrow> (v # vs, st2)))"
| "convertSingularValueS (BoolKind b) st = ((sval ValueBool)\<lparr>sv_boolValue := b\<rparr>, st)"
| "convertSingularValueS (Int32Kind i) st = ((sval ValueInt)\<lparr>sv_intValue := i\<rparr>, st)"
| "convertSingularValueS (Sint32Kind i) st = ((sval ValueInt)\<lparr>sv_intValue := i\<rparr>, st)"
| "convertSingularValueS (Sfixed32Kind i) st = ((sval ValueInt)\<lparr>sv_intValue := i\<rparr>, st)"
| "convertSingularValueS (Int64Kind i) st = ((sval ValueInt)\<lparr>sv_intValue := i\<rparr>, st)"
| "convertSingularValueS (Sint64Kind i) st = ((sval ValueInt)\<lparr>sv_intValue := i\<rparr>, st)"
| "convertSingularValueS (Sfixed64Kind i) st = ((sval ValueInt)\<lparr>sv_intValue := i\<rparr>, st)"
| "convertSingularValueS (Uint32Kind u) st = ((sval ValueUint)\<lparr>sv_uintValue := u\<rparr>, st)"
| "convertSingularValueS (Fixed32Kind u) st = ((sval ValueUint)\<lparr>sv_uintValue := u\<rparr>, st)"
| "convertSingularValueS (Uint64Kind u) st = ((sval ValueUint)\<lparr>sv_uintValue := u\<rparr>, st)"
| "convertSingularValueS (Fixed64Kind u) st = ((sval ValueUint)\<lparr>sv_uintValue := u\<rparr>, st)"
| "convertSingularValueS (FloatKind f) st = ((sval ValueFloat)\<lparr>sv_floatValue := f\<rparr>, st)"
| "convertSingularValueS (DoubleKind f) st = ((sval ValueFloat)\<lparr>sv_floatValue := f\<rparr>, st)"
| "convertSingularValueS (StringKind s) st = ((sval ValueString)\<lparr>sv_stringValue := s\<rparr>, st)"
| "convertSingularValueS (BytesKind bs) st =
     (case clone ByteArray bs st of (copy, st') \<Rightarrow> ((sval ValueBytes)\<lparr>sv_bytesValue := copy\<rparr>, st'))"
| "convertSingularValueS (EnumKind declared number) st =
     (case map_of declared number of
        None \<Rightarrow> (sval ValueEnum, st) | Some name \<Rightarrow> ((sval ValueEnum)\<lparr>sv_stringValue := name\<rparr>, st))"
| "convertSingularValueS (MessageKind message) st =
     (case convertMessageS message st of (n, st') \<Rightarrow> ((sval ValueNode)\<lparr>sv_nodeValue := n\<rparr>, st'))"
| "convertSingularValueS (GroupKind message) st =
     (case convertMessageS message st of (n, st') \<Rightarrow> ((sval ValueNode)\<lparr>sv_nodeValue := n\<rparr>, st'))"
| "convertSingularValueS OtherKind st = (szeroValue, st)"

definition convertPGNodeS :: "Message option \<Rightarrow> store \<Rightarrow> ref option \<times> store" where
  "convertPGNodeS source st = (case source of None \<Rightarrow> (None, st) | Some message \<Rightarrow> convertMessageS message st)"

fun convertStatementsS :: "ref option list \<Rightarrow> Message option list \<Rightarrow> store \<Rightarrow> ref option list \<times> store" where
  "convertStatementsS statements [] st = (statements, st)"
| "convertStatementsS statements (rawStatement # rest) st =
     (case convertPGNodeS rawStatement st of
        (statement, st1) \<Rightarrow>
          convertStatementsS (if statement \<noteq> None then statements @ [statement] else statements) rest st1)"

text \<open>The result is its slice of statements; a nil \<open>*Result\<close> is \<open>None\<close>.\<close>

definition ParseS :: "backend \<Rightarrow> string \<Rightarrow> store \<Rightarrow> (slice option \<times> error) \<times> store" where
  "ParseS parseBackend sql st =
     (if IndexByte sql (CHR 0x00) \<ge> 0
      then ((None, Some (ParserErr (Some \<lparr>error_category = FailureSyntax\<rparr>))), st)
      else case parseBackend sql of
             Inl err \<Rightarrow> ((None, Some (ParserErr (Some \<lparr>error_category = FailureSyntax\<rparr>))), st)
           | Inr tree \<Rightarrow>
               (case convertStatementsS [] tree st of
                  (ns, st1) \<Rightarrow> (case build NodeArray ns st1 of (statements, st2) \<Rightarrow> ((Some statements, None), st2))))"

section \<open>Trees in a region of the store\<close>

text \<open>
  \<open>repNode S st n r\<close>: the pointer \<open>r\<close> shows the tree \<open>n\<close>, and everything reading it follows
  lies in the region \<open>S\<close>.
\<close>

definition within_region :: "ref set \<Rightarrow> slice \<Rightarrow> bool" where
  "within_region S sl = (case sl of None \<Rightarrow> True | Some a \<Rightarrow> a \<in> S)"

fun repNode :: "ref set \<Rightarrow> store \<Rightarrow> Node \<Rightarrow> ref \<Rightarrow> bool"
  and repFields :: "ref set \<Rightarrow> store \<Rightarrow> Field list \<Rightarrow> sfield list \<Rightarrow> bool"
  and repValue :: "ref set \<Rightarrow> store \<Rightarrow> Value \<Rightarrow> svalue \<Rightarrow> bool"
  and repValues :: "ref set \<Rightarrow> store \<Rightarrow> Value list \<Rightarrow> svalue list \<Rightarrow> bool" where
  "repNode S st (Node k fs) r =
     (r \<in> S \<and> (\<exists>fl. cells st r = Some (NodeCell k fl) \<and> within_region S fl \<and>
        repFields S st fs (fieldsAt st fl)))"
| "repFields S st [] sfs = (sfs = [])"
| "repFields S st (Field name v # fs) sfs =
     (case sfs of [] \<Rightarrow> False | sf # rest \<Rightarrow> sf_name sf = name \<and> repValue S st v (sf_value sf) \<and> repFields S st fs rest)"
| "repValue S st (Value k b i u f s bs n vs) sv =
     (sv_kind sv = k \<and> sv_boolValue sv = b \<and> sv_intValue sv = i \<and> sv_uintValue sv = u \<and> sv_floatValue sv = f \<and>
      sv_stringValue sv = s \<and> within_region S (sv_bytesValue sv) \<and> bytesAt st (sv_bytesValue sv) = bs \<and>
      (case n of None \<Rightarrow> sv_nodeValue sv = None | Some nd \<Rightarrow> (\<exists>r. sv_nodeValue sv = Some r \<and> repNode S st nd r)) \<and>
      within_region S (sv_listValue sv) \<and> repValues S st vs (valuesAt st (sv_listValue sv)))"
| "repValues S st [] svs = (svs = [])"
| "repValues S st (v # vs) svs =
     (case svs of [] \<Rightarrow> False | sv # rest \<Rightarrow> repValue S st v sv \<and> repValues S st vs rest)"

definition repPointer :: "ref set \<Rightarrow> store \<Rightarrow> Node option \<Rightarrow> ref option \<Rightarrow> bool" where
  "repPointer S st n p =
     (case n of None \<Rightarrow> p = None | Some nd \<Rightarrow> (\<exists>r. p = Some r \<and> repNode S st nd r))"

lemma repPointer_nil [simp]: "repPointer S st None p \<longleftrightarrow> p = None"
  by (simp add: repPointer_def)

text \<open>Only the region matters, and a larger region does as well.\<close>

lemma reads_cong:
  assumes "within_region S sl" and "\<forall>a \<in> S. cells st' a = cells st a"
  shows "fieldsAt st' sl = fieldsAt st sl" "valuesAt st' sl = valuesAt st sl" "bytesAt st' sl = bytesAt st sl"
    "nodesAt st' sl = nodesAt st sl"
  using assms by (cases sl; simp add: fieldsAt_def valuesAt_def bytesAt_def nodesAt_def within_region_def)+

lemma within_region_mono: "within_region S sl \<Longrightarrow> S \<subseteq> S' \<Longrightarrow> within_region S' sl"
  by (auto simp: within_region_def split: option.splits)

lemma rep_frame:
  assumes "S \<subseteq> S'" and "\<forall>a \<in> S. cells st' a = cells st a"
  shows "repNode S st n r \<Longrightarrow> repNode S' st' n r"
    and "repFields S st fs sfs \<Longrightarrow> repFields S' st' fs sfs"
    and "repValue S st v sv \<Longrightarrow> repValue S' st' v sv"
    and "repValues S st vs svs \<Longrightarrow> repValues S' st' vs svs"
  using assms
proof (induction S st n r and S st fs sfs and S st v sv and S st vs svs
    rule: repNode_repFields_repValue_repValues.induct)
  case (1 S st k fs r)
  from "1.prems"(1) obtain fl where fl: "r \<in> S" "cells st r = Some (NodeCell k fl)" "within_region S fl"
    "repFields S st fs (fieldsAt st fl)" by auto
  with 1 reads_cong(1) [OF fl(3) "1.prems"(3)] within_region_mono [OF fl(3) "1.prems"(2)]
  show ?case by auto
next
  case (4 S st k b i u f s bs n vs sv)
  from "4.prems"(1) have regions: "within_region S (sv_bytesValue sv)" "within_region S (sv_listValue sv)" by simp_all
  note reads = reads_cong(3) [OF regions(1) "4.prems"(3)] reads_cong(2) [OF regions(2) "4.prems"(3)]
  with 4 regions show ?case by (auto intro: within_region_mono split: option.splits)
qed (auto split: list.splits)

lemma repPointer_frame:
  "repPointer S st n p \<Longrightarrow> S \<subseteq> S' \<Longrightarrow> \<forall>a \<in> S. cells st' a = cells st a \<Longrightarrow> repPointer S' st' n p"
  using rep_frame(1) by (auto simp: repPointer_def split: option.splits)

section \<open>Growing stores\<close>

text \<open>An operation that only allocates, and the memory it has allocated.\<close>

definition grows :: "store \<Rightarrow> store \<Rightarrow> bool" where
  "grows st st' = (fresh st \<le> fresh st' \<and> (\<forall>a < fresh st. cells st' a = cells st a))"

definition region :: "store \<Rightarrow> store \<Rightarrow> ref set" where
  "region st st' = {fresh st..<fresh st'}"

lemma grows_refl [simp]: "grows st st"
  by (simp add: grows_def)

lemma grows_trans [trans]: "grows st st1 \<Longrightarrow> grows st1 st2 \<Longrightarrow> grows st st2"
  by (auto simp: grows_def)

lemma grows_alloc: "alloc c st = (r, st') \<Longrightarrow> grows st st' \<and> cells st' r = Some c \<and> r \<in> region st st'"
  by (auto simp: alloc_def grows_def region_def)

lemma grows_clone:
  "clone arr xs st = (sl, st') \<Longrightarrow> grows st st' \<and> within_region (region st st') sl \<and>
     Option.bind sl (cells st') = (if xs = [] then None else Some (arr xs))"
  by (auto simp: clone_def within_region_def dest: grows_alloc split: if_splits prod.splits)

lemma grows_build:
  "build arr xs st = (sl, st') \<Longrightarrow> grows st st' \<and> within_region (region st st') sl \<and>
     Option.bind sl (cells st') = Some (arr xs)"
  by (auto simp: build_def within_region_def dest: grows_alloc split: prod.splits)

lemma region_mono:
  "grows st st1 \<Longrightarrow> grows st1 st2 \<Longrightarrow> region st st1 \<subseteq> region st st2 \<and> region st1 st2 \<subseteq> region st st2"
  by (auto simp: grows_def region_def)

lemma region_kept: "grows st1 st2 \<Longrightarrow> \<forall>a \<in> region st st1. cells st2 a = cells st1 a"
  by (auto simp: grows_def region_def)

text \<open>What has been built stays built.\<close>

lemma rep_grows:
  assumes "grows st st1" and "grows st1 st2"
  shows "repNode (region st st1) st1 n r \<Longrightarrow> repNode (region st st2) st2 n r"
    and "repFields (region st st1) st1 fs sfs \<Longrightarrow> repFields (region st st2) st2 fs sfs"
    and "repValue (region st st1) st1 v sv \<Longrightarrow> repValue (region st st2) st2 v sv"
    and "repValues (region st st1) st1 vs svs \<Longrightarrow> repValues (region st st2) st2 vs svs"
  using rep_frame [OF conjunct1 [OF region_mono [OF assms]] region_kept [OF assms(2)]] by blast+

lemma rep_later:
  assumes "grows st st1" and "grows st1 st2"
  shows "repNode (region st1 st2) st2 n r \<Longrightarrow> repNode (region st st2) st2 n r"
    and "repFields (region st1 st2) st2 fs sfs \<Longrightarrow> repFields (region st st2) st2 fs sfs"
    and "repValue (region st1 st2) st2 v sv \<Longrightarrow> repValue (region st st2) st2 v sv"
    and "repValues (region st1 st2) st2 vs svs \<Longrightarrow> repValues (region st st2) st2 vs svs"
  using rep_frame [OF conjunct2 [OF region_mono [OF assms]]] by blast+

section \<open>The conversion builds in its own memory\<close>

lemma sval_sel [simp]:
  "sv_kind (sval k) = k" "sv_boolValue (sval k) = False" "sv_intValue (sval k) = 0" "sv_uintValue (sval k) = 0"
  "sv_floatValue (sval k) = 0" "sv_stringValue (sval k) = []" "sv_bytesValue (sval k) = None"
  "sv_nodeValue (sval k) = None" "sv_listValue (sval k) = None"
  by (simp_all add: sval_def szeroValue_def)

lemma reads_nil [simp]: "fieldsAt st None = []" "valuesAt st None = []" "bytesAt st None = []" "nodesAt st None = []"
  "within_region S None"
  by (simp_all add: fieldsAt_def valuesAt_def bytesAt_def nodesAt_def within_region_def)

text \<open>A node and a list on top of what has been built.\<close>

lemma node_built:
  assumes "grows st st1" and "repFields (region st st1) st1 fs sfs"
    and "build FieldArray sfs st1 = (fl, st2)" and "alloc (NodeCell k fl) st2 = (r, st3)"
  shows "grows st st3 \<and> repNode (region st st3) st3 (Node k fs) r"
proof -
  note array = grows_build [OF assms(3)] and node = grows_alloc [OF assms(4)]
  have "grows st1 st3" "grows st st2" "grows st st3"
    using assms(1) array node by (auto intro: grows_trans)
  moreover have "r \<in> region st st3" "within_region (region st st3) fl"
    using node array region_mono [OF \<open>grows st st2\<close>, of st3] region_mono [OF assms(1), of st2]
    by (blast, meson order_trans within_region_mono)
  moreover have "fieldsAt st3 fl = sfs"
    using reads_cong(1) [OF _ region_kept, of st1 st2 fl st3] array node by (simp add: fieldsAt_def)
  moreover have "repFields (region st st3) st3 fs sfs"
    using rep_grows(2) [OF assms(1) \<open>grows st1 st3\<close> assms(2)] .
  ultimately show ?thesis using node by auto
qed

lemma list_built:
  assumes "grows st st1" and "repValues (region st st1) st1 vs svs" and "build ValueArray svs st1 = (values, st2)"
  shows "grows st st2 \<and> within_region (region st st2) values \<and> repValues (region st st2) st2 vs (valuesAt st2 values)"
proof -
  note array = grows_build [OF assms(3)]
  have "valuesAt st2 values = svs" using array by (simp add: valuesAt_def)
  with array assms(1,2) show ?thesis
    by (auto intro: grows_trans rep_grows(4) within_region_mono dest: region_mono [OF assms(1)])
qed

lemma convertS_rep:
  "convertMessageS m st = (p, st') \<Longrightarrow> grows st st' \<and> repPointer (region st st') st' (convertMessage m) p"
  "convertFieldsS fs st = (sfs, st') \<Longrightarrow> grows st st' \<and> repFields (region st st') st' (convertFields fs) sfs"
  "convertValueS r st = (sv, st') \<Longrightarrow> grows st st' \<and> repValue (region st st') st' (convertValue r) sv"
  "convertListS ss st = (svs, st') \<Longrightarrow> grows st st' \<and> repValues (region st st') st' (convertList ss) svs"
  "convertSingularValueS s st = (sv, st') \<Longrightarrow> grows st st' \<and> repValue (region st st') st' (convertSingularValue s) sv"
proof (induction m st and fs st and r st and ss st and s st
    arbitrary: p st' and sfs st' and sv st' and svs st' and sv st'
    rule: convertMessageS_convertFieldsS_convertValueS_convertListS_convertSingularValueS.induct)
  case (1 isValid fullName name oneof declaredFields st)
  show ?case
  proof (cases "isValid \<and> fullName \<noteq> pgQueryNodeName")
    case True
    with "1.prems" obtain fs fl r st1 st2 where
      parts: "convertFieldsS declaredFields st = (fs, st1)" "build FieldArray fs st1 = (fl, st2)"
        "alloc (NodeCell name fl) st2 = (r, st')" and p: "p = Some r"
      by (auto split: prod.splits)
    from "1.IH"(2) [OF _ _ parts(1)] True
    have fields: "grows st st1" "repFields (region st st1) st1 (convertFields declaredFields) fs" by auto
    from node_built [OF fields parts(2,3)] True p show ?thesis by (simp add: repPointer_def)
  next
    case False
    with 1 show ?thesis by (cases oneof) (auto split: if_splits)
  qed
next
  case (3 name has source rest st)
  show ?case
  proof (cases has)
    case True
    with "3.prems" obtain v fs st1 where
      parts: "convertValueS source st = (v, st1)" "convertFieldsS rest st1 = (fs, st')"
      and sfs: "sfs = \<lparr>sf_name = name, sf_value = v\<rparr> # fs" by (auto split: prod.splits)
    from "3.IH"(2,3) True parts have
      "grows st st1" "repValue (region st st1) st1 (convertValue source) v"
      "grows st1 st'" "repFields (region st1 st') st' (convertFields rest) fs" by auto
    with True sfs show ?thesis by (auto intro: grows_trans rep_grows(3) rep_later(2))
  qed (use 3 in auto)
next
  case (4 list st)
  then obtain vs vl st1 where parts: "convertListS list st = (vs, st1)" "build ValueArray vs st1 = (vl, st')"
    and sv: "sv = (sval ValueList)\<lparr>sv_listValue := vl\<rparr>" by (auto split: prod.splits)
  from "4.IH" [OF parts(1)] have list: "grows st st1" "repValues (region st st1) st1 (convertList list) vs" by auto
  from list_built [OF list parts(2)] show ?case by (simp add: sv listVal_def)
next
  case (7 item rest st)
  then obtain v vs st1 where parts: "convertSingularValueS item st = (v, st1)" "convertListS rest st1 = (vs, st')"
    and svs: "svs = v # vs" by (auto split: prod.splits)
  from "7.IH" parts have
    "grows st st1" "repValue (region st st1) st1 (convertSingularValue item) v"
    "grows st1 st'" "repValues (region st1 st') st' (convertList rest) vs" by auto
  with svs show ?case by (auto intro: grows_trans rep_grows(3) rep_later(4))
next
  case (22 bs st)
  then obtain copy where parts: "clone ByteArray bs st = (copy, st')"
    and sv: "sv = (sval ValueBytes)\<lparr>sv_bytesValue := copy\<rparr>" by (auto split: prod.splits)
  from grows_clone [OF parts] show ?case by (auto simp: sv bytesVal_def bytesAt_def split: if_splits)
qed (auto simp: value_lits szeroValue_def repPointer_def split: option.splits prod.splits)

definition repResult :: "ref set \<Rightarrow> store \<Rightarrow> Result option \<Rightarrow> slice option \<Rightarrow> bool" where
  "repResult S st r p =
     (case r of None \<Rightarrow> p = None
      | Some res \<Rightarrow> (\<exists>sl. p = Some sl \<and> within_region S sl \<and>
          list_all2 (repPointer S st) (result_statements res) (nodesAt st sl)))"

lemma repPointer_grows:
  assumes "grows st st1" and "grows st1 st2"
  shows "repPointer (region st st1) st1 n p \<Longrightarrow> repPointer (region st st2) st2 n p"
    and "repPointer (region st1 st2) st2 n p \<Longrightarrow> repPointer (region st st2) st2 n p"
  using region_mono [OF assms] region_kept [OF assms(2)] by (auto intro: repPointer_frame)

lemma convertPGNodeS_rep:
  "convertPGNodeS m st = (p, st') \<Longrightarrow> grows st st' \<and> repPointer (region st st') st' (convertPGNode m) p"
  using convertS_rep(1) by (auto simp: convertPGNodeS_def convertPGNode_def split: option.splits)

lemma repPointer_nil_iff: "repPointer S st n p \<Longrightarrow> n = None \<longleftrightarrow> p = None"
  by (auto simp: repPointer_def split: option.splits)

lemma convertStatementsS_rep:
  assumes "convertStatementsS acc ms st1 = (ps, st2)" and "grows st st1"
    and "list_all2 (repPointer (region st st1) st1) nacc acc"
  shows "grows st st2 \<and> list_all2 (repPointer (region st st2) st2) (convertStatements nacc ms) ps"
  using assms
proof (induction acc ms st1 arbitrary: nacc rule: convertStatementsS.induct)
  case (2 acc m rest st1)
  obtain p st' where p: "convertPGNodeS m st1 = (p, st')" by fastforce
  note conv = convertPGNodeS_rep [OF p]
  then have grows: "grows st st'" using "2.prems"(2) grows_trans by blast
  have "list_all2 (repPointer (region st st') st') nacc acc"
    using "2.prems"(2,3) conv by (auto elim!: list_all2_mono intro: repPointer_grows(1))
  moreover have new: "repPointer (region st st') st' (convertPGNode m) p"
    using "2.prems"(2) conv repPointer_grows(2) by blast
  ultimately have "list_all2 (repPointer (region st st') st')
      (if convertPGNode m \<noteq> None then nacc @ [convertPGNode m] else nacc) (if p \<noteq> None then acc @ [p] else acc)"
    using repPointer_nil_iff [OF new] by (auto intro: list_all2_appendI)
  from "2.IH" [OF p [symmetric] _ grows this] "2.prems"(1) p show ?case by (simp add: Let_def)
qed simp

lemma ParseS_rep:
  assumes "ParseS b sql st = ((p, err), st')"
  shows "grows st st' \<and> repResult (region st st') st' (fst (Parse b sql)) p \<and> err = snd (Parse b sql)"
proof (cases "\<exists>tree. IndexByte sql (CHR 0x00) < 0 \<and> b sql = Inr tree")
  case True
  then obtain tree where tree: "IndexByte sql (CHR 0x00) < 0" "b sql = Inr tree" by blast
  with assms obtain ns sl st1 where parts: "convertStatementsS [] tree st = (ns, st1)" "build NodeArray ns st1 = (sl, st')"
    and p: "p = Some sl" "err = None" by (auto simp: ParseS_def split: prod.splits)
  have conv: "grows st st1" "list_all2 (repPointer (region st st1) st1) (convertStatements [] tree) ns"
    using convertStatementsS_rep [OF parts(1), of st "[]"] by auto
  note array = grows_build [OF parts(2)]
  have "nodesAt st' sl = ns" using array by (simp add: nodesAt_def)
  moreover have "list_all2 (repPointer (region st st') st') (convertStatements [] tree) ns"
    using conv array by (auto elim!: list_all2_mono intro: repPointer_grows(1))
  moreover have "grows st st'" "within_region (region st st') sl"
    using conv array region_mono [OF conv(1), of st'] by (auto intro: grows_trans within_region_mono)
  ultimately show ?thesis using tree p by (simp add: Parse_def repResult_def)
next
  case False
  with assms show ?thesis by (auto simp: ParseS_def Parse_def repResult_def split: if_splits sum.splits)
qed

section \<open>The accessors read the tree\<close>

lemma reads_clone:
  "clone ByteArray bs st = (sl, st') \<Longrightarrow> bytesAt st' sl = bs"
  "clone ValueArray svs st = (sl, st') \<Longrightarrow> valuesAt st' sl = svs"
  "clone FieldArray sfs st = (sl, st') \<Longrightarrow> fieldsAt st' sl = sfs"
  "clone NodeArray ps st = (sl, st') \<Longrightarrow> nodesAt st' sl = ps"
  by (auto dest!: grows_clone simp: bytesAt_def valuesAt_def fieldsAt_def nodesAt_def split: if_splits)

text \<open>A tree in allocated memory outlives every operation that only allocates.\<close>

definition allocated :: "ref set \<Rightarrow> store \<Rightarrow> bool" where
  "allocated S st = (\<forall>a \<in> S. a < fresh st)"

lemma allocated_kept: "allocated S st \<Longrightarrow> grows st st' \<Longrightarrow> \<forall>a \<in> S. cells st' a = cells st a"
  by (auto simp: allocated_def grows_def)

lemmas rep_kept = rep_frame [OF order_refl allocated_kept] repPointer_frame [OF _ order_refl allocated_kept]

lemma find_fieldS_rep:
  assumes "repFields S st fs sfs"
  shows "snd (find_fieldS sfs name) = snd (find_field fs name) \<and> repValue S st (fst (find_field fs name)) (fst (find_fieldS sfs name))"
  using assms
proof (induction fs arbitrary: sfs)
  case Nil
  then show ?case by (simp add: zeroValue_def szeroValue_def)
next
  case (Cons f fs)
  then show ?case by (cases f; cases sfs) auto
qed

lemma Node_FieldS_rep:
  assumes "repPointer S st n p"
  shows "snd (Node_FieldS st p name) = snd (Node_Field n name) \<and>
     repValue S st (fst (Node_Field n name)) (fst (Node_FieldS st p name))"
proof (cases n)
  case None
  with assms show ?thesis by (simp add: Node_FieldS_def Node_Field_def zeroValue_def szeroValue_def)
next
  case (Some nd)
  with assms obtain r where p: "p = Some r" "repNode S st nd r" by (auto simp: repPointer_def)
  then have "repFields S st (node_fields nd) (nodeFields st r)" by (cases nd) (auto simp: nodeFields_def)
  from find_fieldS_rep [OF this, of name] p Some show ?thesis by (simp add: Node_FieldS_def Node_Field_def)
qed

lemma Value_BytesS_rep:
  assumes "repValue S st v sv" and "Value_BytesS sv st = ((sl, ok), st')"
  shows "grows st st' \<and> within_region (region st st') sl \<and> (bytesAt st' sl, ok) = Value_Bytes v"
proof -
  have "sv_kind sv = value_kind v" "bytesAt st (sv_bytesValue sv) = bytesValue v" using assms(1) by (cases v; simp)+
  with assms(2) show ?thesis
    by (auto simp: Value_BytesS_def Value_Bytes_def reads_clone dest: grows_clone split: if_splits prod.splits)
qed

lemma Value_ListS_rep:
  assumes "repValue S st v sv" and "Value_ListS sv st = ((sl, ok), st')" and "allocated S st"
  shows "grows st st' \<and> within_region (region st st') sl \<and> ok = snd (Value_List v) \<and>
     repValues S st' (fst (Value_List v)) (valuesAt st' sl)"
proof -
  have "sv_kind sv = value_kind v" "repValues S st (listValue v) (valuesAt st (sv_listValue sv))"
    using assms(1) by (cases v; simp)+
  with assms(2) rep_kept(4) [OF assms(3)] show ?thesis
    by (auto simp: Value_ListS_def Value_List_def reads_clone dest: grows_clone split: if_splits prod.splits)
qed

lemma Value_NodeS_rep:
  assumes "repValue S st v sv"
  shows "snd (Value_NodeS sv) = snd (Value_Node v) \<and> repPointer S st (fst (Value_Node v)) (fst (Value_NodeS sv))"
  using assms by (cases v) (auto simp: Value_NodeS_def Value_Node_def repPointer_def)

lemma Node_FieldsS_rep:
  assumes "repPointer S st n p" and "Node_FieldsS p st = (sl, st')" and "allocated S st"
  shows "grows st st' \<and> within_region (region st st') sl \<and> repFields S st' (Node_Fields n) (fieldsAt st' sl)"
proof (cases n)
  case None
  with assms show ?thesis by (simp add: Node_FieldsS_def Node_Fields_def)
next
  case (Some nd)
  with assms(1) obtain r where p: "p = Some r" "repNode S st nd r" by (auto simp: repPointer_def)
  then have "repFields S st (node_fields nd) (nodeFields st r)" by (cases nd) (auto simp: nodeFields_def)
  with assms(2) p Some rep_kept(2) [OF assms(3)] show ?thesis
    by (auto simp: Node_FieldsS_def Node_Fields_def reads_clone dest: grows_clone)
qed

lemma Result_StatementsS_rep:
  assumes "repResult S st r p" and "Result_StatementsS p st = (sl, st')" and "allocated S st"
  shows "grows st st' \<and> within_region (region st st') sl \<and>
     list_all2 (repPointer S st') (Result_Statements r) (nodesAt st' sl)"
  using assms rep_kept(5) [OF _ assms(3)]
  by (auto simp: repResult_def Result_StatementsS_def Result_Statements_def reads_clone
      dest: grows_clone elim!: list_all2_mono split: option.splits)

lemma collectChildrenS_rep:
  assumes "repValues S st vs svs" and "list_all2 (repPointer S st) (map gnode ns) ps"
  shows "list_all2 (repPointer S st) (map gnode (collectChildren ns vs)) (collectChildrenS ps svs)"
  using assms
proof (induction ns vs arbitrary: ps svs rule: collectChildren.induct)
  case (2 ns item rest)
  then obtain sv srest where svs: "svs = sv # srest" "repValue S st item sv" "repValues S st rest srest"
    by (auto split: list.splits)
  obtain child isNode where child: "Value_Node item = (child, isNode)" by fastforce
  with Value_NodeS_rep [OF svs(2)] obtain p where p: "Value_NodeS sv = (p, isNode)" "repPointer S st child p"
    by (cases "Value_NodeS sv") auto
  have "list_all2 (repPointer S st) (map gnode (if isNode then ns @ [\<lparr>gnode = child\<rparr>] else ns))
      (if isNode then ps @ [p] else ps)"
    using "2.prems"(2) p(2) by (auto intro: list_all2_appendI)
  from "2.IH" [OF child [symmetric] svs(3) this] show ?case by (simp add: svs(1) child p(1))
qed simp

lemma GuardNode_valueS_rep:
  assumes "repPointer S st (gnode n) p"
  shows "snd (GuardNode_valueS st p name) = snd (GuardNode_value n name) \<and>
     repValue S st (fst (GuardNode_value n name)) (fst (GuardNode_valueS st p name))"
  using Node_FieldS_rep [OF assms, of name] repPointer_nil_iff [OF assms]
  by (auto simp: GuardNode_valueS_def GuardNode_value_def zeroValue_def szeroValue_def)

lemma GuardNode_BytesS_rep:
  assumes "repPointer S st (gnode n) p" and "GuardNode_BytesS p name st = ((sl, ok), st')"
  shows "(bytesAt st' sl, ok) = GuardNode_Bytes n name"
proof -
  obtain sv found where sv: "GuardNode_valueS st p name = (sv, found)" by fastforce
  with GuardNode_valueS_rep [OF assms(1), of name] obtain v where
    v: "GuardNode_value n name = (v, found)" "repValue S st v sv" by (cases "GuardNode_value n name") auto
  with assms(2) sv Value_BytesS_rep [OF v(2)] show ?thesis
    by (auto simp: GuardNode_BytesS_def GuardNode_Bytes_def split: if_splits)
qed

lemma GuardNode_ChildrenS_rep:
  assumes "repPointer S st (gnode n) p" and "GuardNode_ChildrenS p name st = (sl, st')" and "allocated S st"
  shows "list_all2 (repPointer S st') (map gnode (GuardNode_Children n name)) (nodesAt st' sl)"
proof -
  obtain sv found where sv: "GuardNode_valueS st p name = (sv, found)" by fastforce
  with GuardNode_valueS_rep [OF assms(1), of name] obtain v where
    v: "GuardNode_value n name = (v, found)" "repValue S st v sv" by (cases "GuardNode_value n name") auto
  obtain vl ok st1 where copy: "Value_ListS sv st = ((vl, ok), st1)" by (metis prod.collapse)
  note list = Value_ListS_rep [OF v(2) copy assms(3)]
  show ?thesis
  proof (cases "found \<and> ok")
    case True
    with assms(2) sv copy have "build NodeArray (collectChildrenS [] (valuesAt st1 vl)) st1 = (sl, st')"
      by (simp add: GuardNode_ChildrenS_def)
    note array = grows_build [OF this]
    have "allocated S st1" using assms(3) list by (fastforce simp: allocated_def grows_def)
    with array have keep: "repPointer S st1 n' q \<Longrightarrow> repPointer S st' n' q" for n' q
      using rep_kept(5) by blast
    have "list_all2 (repPointer S st1) (map gnode (collectChildren [] (fst (Value_List v)))) (collectChildrenS [] (valuesAt st1 vl))"
      using collectChildrenS_rep [of S st1 _ _ "[]" "[]"] list by simp
    then have "list_all2 (repPointer S st') (map gnode (collectChildren [] (fst (Value_List v)))) (nodesAt st' sl)"
      using array by (auto simp: nodesAt_def elim!: list_all2_mono intro: keep)
    moreover have "GuardNode_Children n name = collectChildren [] (fst (Value_List v))"
      using True v(1) list by (simp add: GuardNode_Children_def case_prod_unfold)
    ultimately show ?thesis by simp
  next
    case False
    with assms(2) sv copy v(1) list show ?thesis
      by (auto simp: GuardNode_ChildrenS_def GuardNode_Children_def case_prod_unfold split: if_splits)
  qed
qed

section \<open>A client that overwrites what it is given\<close>

text \<open>
  The calls by which code outside the package obtains slices, with any pointers and values it
  may hold, and the slice each call hands out.
\<close>

datatype access =
    GetBytes svalue
  | GetList svalue
  | GetFields "ref option"
  | GetStatements "slice option"
  | GetNodeBytes "ref option" string
  | GetNodeChildren "ref option" string

fun handOut :: "access \<Rightarrow> store \<Rightarrow> slice \<times> store" where
  "handOut (GetBytes v) st = (case Value_BytesS v st of ((sl, ok), st') \<Rightarrow> (sl, st'))"
| "handOut (GetList v) st = (case Value_ListS v st of ((sl, ok), st') \<Rightarrow> (sl, st'))"
| "handOut (GetFields n) st = Node_FieldsS n st"
| "handOut (GetStatements r) st = Result_StatementsS r st"
| "handOut (GetNodeBytes n name) st = (case GuardNode_BytesS n name st of ((sl, ok), st') \<Rightarrow> (sl, st'))"
| "handOut (GetNodeChildren n name) st = GuardNode_ChildrenS n name st"

lemma clone_handout: "clone arr xs st = (sl, st') \<Longrightarrow> grows st st' \<and> within_region (region st st') sl"
  using grows_clone by blast

lemma Value_ListS_handout:
  "Value_ListS v st = ((sl, ok), st') \<Longrightarrow> grows st st' \<and> within_region (region st st') sl"
  by (auto simp: Value_ListS_def split: if_splits prod.splits dest: clone_handout)

lemma GuardNode_ChildrenS_handout:
  assumes "GuardNode_ChildrenS n name st = (sl, st')"
  shows "grows st st' \<and> within_region (region st st') sl"
proof -
  obtain v found where v: "GuardNode_valueS st n name = (v, found)" by fastforce
  obtain vl ok st1 where copy: "Value_ListS v st = ((vl, ok), st1)" by (metis prod.collapse)
  from Value_ListS_handout [OF copy] have grows: "grows st st1" by blast
  show ?thesis
  proof (cases "found \<and> ok")
    case True
    with assms v copy have "build NodeArray (collectChildrenS [] (valuesAt st1 vl)) st1 = (sl, st')"
      by (simp add: GuardNode_ChildrenS_def)
    from grows_build [OF this] region_mono [OF grows, of st'] grows show ?thesis
      by (auto intro: grows_trans within_region_mono)
  next
    case False
    with assms v copy grows show ?thesis by (auto simp: GuardNode_ChildrenS_def split: if_splits)
  qed
qed

lemma handOut_fresh:
  assumes "handOut q st = (sl, st')"
  shows "grows st st' \<and> within_region (region st st') sl"
  using assms
  by (cases q) (auto simp: Value_BytesS_def Node_FieldsS_def Result_StatementsS_def GuardNode_BytesS_def
      split: if_splits prod.splits option.splits dest: clone_handout Value_ListS_handout GuardNode_ChildrenS_handout)

text \<open>
  What a client may do: ask for slices, parse, allocate memory of its own, and write whatever it likes
  into any array it has been given or has made.
\<close>

inductive client_step :: "store \<times> ref set \<Rightarrow> store \<times> ref set \<Rightarrow> bool" where
  ask: "handOut q st = (sl, st') \<Longrightarrow> client_step (st, owned) (st', owned \<union> set_option sl)"
| parse: "ParseS b sql st = (r, st') \<Longrightarrow> client_step (st, owned) (st', owned)"
| own: "alloc c st = (a, st') \<Longrightarrow> client_step (st, owned) (st', insert a owned)"
| scribble: "a \<in> owned \<Longrightarrow> client_step (st, owned) (st\<lparr>cells := (cells st)(a \<mapsto> c)\<rparr>, owned)"

lemma ParseS_grows: "ParseS b sql st = (r, st') \<Longrightarrow> grows st st'"
  using ParseS_rep [of b sql st "fst r" "snd r" st'] by simp

text \<open>The region of a tree is out of reach and unchanged.\<close>

lemma client_keeps:
  assumes "client_step\<^sup>*\<^sup>* (st, owned) (st', owned')" and "allocated S st" and "S \<inter> owned = {}"
  shows "allocated S st' \<and> S \<inter> owned' = {} \<and> (\<forall>a \<in> S. cells st' a = cells st a)"
  using assms(1)
proof (induction st' owned' rule: rtranclp_induct2)
  case refl
  with assms(2,3) show ?case by simp
next
  case (step st1 owned1 st2 owned2)
  then have IH: "allocated S st1" "S \<inter> owned1 = {}" "\<forall>a \<in> S. cells st1 a = cells st a" by blast+
  have new: "allocated S st2 \<and> S \<inter> region st1 st2 = {} \<and> (\<forall>a \<in> S. cells st2 a = cells st a)" if "grows st1 st2"
    using IH that by (fastforce simp: allocated_def grows_def region_def)
  from step.hyps(2) show ?case
  proof cases
    case (ask q sl)
    with handOut_fresh [OF ask(2)] new IH(2) show ?thesis
      by (cases sl) (auto simp: within_region_def)
  next
    case (parse b sql r)
    with ParseS_grows [OF parse(2)] new IH(2) show ?thesis by simp
  next
    case (own c a)
    with grows_alloc [OF own(2)] new IH(2) show ?thesis by auto
  next
    case (scribble a c)
    with IH show ?thesis by (auto simp: allocated_def)
  qed
qed

lemma allocated_region: "allocated (region st st') st'"
  by (simp add: allocated_def region_def)

lemma repResult_frame:
  assumes "repResult S st r p" and "\<forall>a \<in> S. cells st' a = cells st a"
  shows "repResult S st' r p"
  using assms(1) reads_cong(4) [OF _ assms(2)] repPointer_frame [OF _ order_refl assms(2)]
  by (auto simp: repResult_def elim!: list_all2_mono split: option.splits)

section \<open>Immutability\<close>

text \<open>A message with a bytes field, parsed from any SQL into an empty store.\<close>

definition bytesBackend :: backend where
  "bytesBackend sql =
     Inr [Some (Message True ''pg_query.Const'' ''Const'' None
       [MessageField ''bsval'' True (RSingular (BytesKind [1, 2]))])]"

definition emptyStore :: store where
  "emptyStore = \<lparr>cells = (\<lambda>_. None), fresh = 0\<rparr>"

text \<open>
  C17: a parse result is immutable, whatever the holders of slices do. The conversion puts the
  tree into memory of its own; from then on let a client hold every array that existed before,
  ask any accessor for slices, parse more SQL, and overwrite every array it has been given: at every
  moment the result still shows the very tree that was parsed, and no array of it is in the hands of the client.
\<close>

theorem parsed_tree_immutable:
  assumes "ParseS b sql st = ((p, err), st1)" and "owned \<subseteq> {..<fresh st}"
    and "client_step\<^sup>*\<^sup>* (st1, owned) (st2, owned2)"
  shows "err = snd (Parse b sql) \<and> repResult (region st st1) st2 (fst (Parse b sql)) p \<and>
     region st st1 \<inter> owned2 = {}"
proof -
  have "region st st1 \<inter> owned = {}" using assms(2) by (auto simp: region_def)
  note kept = client_keeps [OF assms(3) allocated_region this]
  with ParseS_rep [OF assms(1)] repResult_frame show ?thesis by blast
qed

theorem parsed_tree_immutable_witness:
  "\<exists>p st1 st2 st3. ParseS bytesBackend [] emptyStore = ((p, None), st1) \<and>
     handOut (GetNodeBytes (Some 2) ''bsval'') st1 = (Some 4, st2) \<and> bytesAt st2 (Some 4) = [1, 2] \<and>
     client_step\<^sup>*\<^sup>* (st1, {}) (st3, {4}) \<and> bytesAt st3 (Some 4) = [7] \<and>
     repResult (region emptyStore st1) st3 (fst (Parse bytesBackend [])) p"
proof -
  obtain p err st1 where parse: "ParseS bytesBackend [] emptyStore = ((p, err), st1)" by (metis prod.collapse)
  obtain sl st2 where ask: "handOut (GetNodeBytes (Some 2) ''bsval'') st1 = (sl, st2)" by fastforce
  have st1: "snd (ParseS bytesBackend [] emptyStore) = st1" by (simp add: parse)
  have "fst (handOut (GetNodeBytes (Some 2) ''bsval'') (snd (ParseS bytesBackend [] emptyStore))) = Some 4"
    by code_simp
  with ask have sl: "sl = Some 4" unfolding st1 by simp
  have "bytesAt (snd (handOut (GetNodeBytes (Some 2) ''bsval'') (snd (ParseS bytesBackend [] emptyStore)))) (Some 4) = [1, 2]"
    by code_simp
  with ask have bytes: "bytesAt st2 (Some 4) = [1, 2]" unfolding st1 by simp
  define st3 where "st3 = st2\<lparr>cells := (cells st2)(4 \<mapsto> ByteArray [7])\<rparr>"
  have "client_step (st1, {}) (st2, {4})" using client_step.ask [OF ask, of "{}"] by (simp add: sl)
  moreover have "client_step (st2, {4}) (st3, {4})" unfolding st3_def by (rule client_step.scribble) simp
  ultimately have steps: "client_step\<^sup>*\<^sup>* (st1, {}) (st3, {4})" by simp
  have "bytesAt st3 (Some 4) = [7]" by (simp add: bytesAt_def st3_def)
  moreover have "snd (Parse bytesBackend []) = None" by code_simp
  ultimately show ?thesis
    using parsed_tree_immutable [OF parse _ steps] parse ask sl bytes steps by auto
qed

text \<open>
  C18: reading a tree in memory is reading the tree. Of a pointer that shows a node, the kind,
  every named field and every child are those of the node, and the slices that \<open>Fields\<close>, \<open>Bytes\<close> and \<open>Children\<close>
  return are new arrays with the elements the functional model gives, missing fields and fields of other kinds included.
\<close>

theorem accessors_read_tree:
  assumes "repPointer S st (gnode n) p" and "allocated S st"
  shows "Node_KindS st p = GuardNode_Kind n \<and>
     snd (GuardNode_valueS st p name) = snd (GuardNode_value n name) \<and>
     repPointer S st (fst (Value_Node (fst (GuardNode_value n name)))) (fst (Value_NodeS (fst (GuardNode_valueS st p name)))) \<and>
     (case Node_FieldsS p st of (sl, st') \<Rightarrow> within_region (region st st') sl \<and>
        repFields S st' (Node_Fields (gnode n)) (fieldsAt st' sl)) \<and>
     (case GuardNode_BytesS p name st of ((sl, ok), st') \<Rightarrow> within_region (region st st') sl \<and>
        (bytesAt st' sl, ok) = GuardNode_Bytes n name) \<and>
     (case GuardNode_ChildrenS p name st of (sl, st') \<Rightarrow> within_region (region st st') sl \<and>
        list_all2 (repPointer S st') (map gnode (GuardNode_Children n name)) (nodesAt st' sl))"
proof (intro conjI)
  show "Node_KindS st p = GuardNode_Kind n"
  proof (cases "gnode n")
    case (Some nd)
    with assms(1) show ?thesis
      by (cases nd) (auto simp: Node_KindS_def GuardNode_Kind_def Node_Kind_def repPointer_def)
  qed (use assms(1) in \<open>simp add: Node_KindS_def GuardNode_Kind_def Node_Kind_def\<close>)
  note val = GuardNode_valueS_rep [OF assms(1), of name]
  then show "snd (GuardNode_valueS st p name) = snd (GuardNode_value n name)" by blast
  from val show "repPointer S st (fst (Value_Node (fst (GuardNode_value n name))))
      (fst (Value_NodeS (fst (GuardNode_valueS st p name))))"
    using Value_NodeS_rep by blast
  show "case Node_FieldsS p st of (sl, st') \<Rightarrow> within_region (region st st') sl \<and>
        repFields S st' (Node_Fields (gnode n)) (fieldsAt st' sl)"
    using Node_FieldsS_rep [OF assms(1) _ assms(2)] by (auto split: prod.split)
  show "case GuardNode_BytesS p name st of ((sl, ok), st') \<Rightarrow> within_region (region st st') sl \<and>
        (bytesAt st' sl, ok) = GuardNode_Bytes n name"
    using GuardNode_BytesS_rep [OF assms(1)] handOut_fresh [of "GetNodeBytes p name" st]
    by (auto split: prod.splits)
  show "case GuardNode_ChildrenS p name st of (sl, st') \<Rightarrow> within_region (region st st') sl \<and>
        list_all2 (repPointer S st') (map gnode (GuardNode_Children n name)) (nodesAt st' sl)"
    using GuardNode_ChildrenS_rep [OF assms(1) _ assms(2)] GuardNode_ChildrenS_handout by (auto split: prod.split)
qed

theorem accessors_read_tree_witness:
  "\<exists>st1 sl ok st2. snd (ParseS bytesBackend [] emptyStore) = st1 \<and>
     GuardNode_BytesS (Some 2) ''bsval'' st1 = ((sl, ok), st2) \<and> within_region (region st1 st2) sl \<and>
     (bytesAt st2 sl, ok) = ([1, 2], True)"
proof -
  obtain p err st1 where parse: "ParseS bytesBackend [] emptyStore = ((p, err), st1)" by (metis prod.collapse)
  have st1: "snd (ParseS bytesBackend [] emptyStore) = st1" "fst (fst (ParseS bytesBackend [] emptyStore)) = p"
    by (simp_all add: parse)
  have "fst (fst (ParseS bytesBackend [] emptyStore)) = Some (Some 3)"
    "nodesAt (snd (ParseS bytesBackend [] emptyStore)) (Some 3) = [Some 2]" by code_simp+
  then have read: "p = Some (Some 3)" "nodesAt st1 (Some 3) = [Some 2]" unfolding st1 by simp_all
  define n where "n = Node ''Const'' [Field ''bsval'' (bytesVal [1, 2])]"
  have "fst (Parse bytesBackend []) = Some \<lparr>result_statements = [Some n]\<rparr>" unfolding n_def by code_simp
  with ParseS_rep [OF parse] read have "repPointer (region emptyStore st1) st1 (gnode \<lparr>gnode = Some n\<rparr>) (Some 2)"
    by (simp add: repResult_def)
  from accessors_read_tree [OF this allocated_region, of "''bsval''"]
  have "case GuardNode_BytesS (Some 2) ''bsval'' st1 of ((sl, ok), st2) \<Rightarrow> within_region (region st1 st2) sl \<and>
      (bytesAt st2 sl, ok) = GuardNode_Bytes \<lparr>gnode = Some n\<rparr> ''bsval''" by (elim conjE) assumption
  moreover have "GuardNode_Bytes \<lparr>gnode = Some n\<rparr> ''bsval'' = ([1, 2], True)" unfolding n_def by code_simp
  ultimately show ?thesis using st1(1) by (auto split: prod.splits)
qed

end
