(* ===== verification/Guard_Threads.thy ===== *)
theory Guard_Threads
  imports Guard_Prelude
begin

text \<open>
  Goroutines. A \<open>thread\<close> is an operation cut at the calls it makes: between two calls it runs on
  its own, and any other thread may act on the shared world there. A pool of threads runs by
  taking one step of one thread at a time, in any order, while the rest of the program may
  change the world as well (\<open>pool_step\<close>). The theory relates the
  three ways to look at a thread: run alone it is an effect (\<open>runT\<close>); in a pool it keeps a
  shared invariant and a contract on its own calls (\<open>upholds\<close>); and what an effect promises
  for every world it may find, its thread promises in every pool (\<open>upholds_transfer\<close>).
\<close>

section \<open>Threads\<close>

text \<open>
  \<open>Act l u k\<close> makes the call \<open>l\<close>: on the world \<open>w\<close> it finds, the call leaves \<open>u w\<close> behind and
  the thread goes on as \<open>k w\<close>. \<open>Tick l t\<close> makes a call that neither reads nor changes the world.
\<close>

datatype ('w, 'l, 'a) thread =
    Done "'a outcome"
  | Act 'l "'w \<Rightarrow> 'w" "'w \<Rightarrow> ('w, 'l, 'a) thread"
  | Tick 'l "('w, 'l, 'a) thread"

primrec bindT :: "('w, 'l, 'a) thread \<Rightarrow> ('a \<Rightarrow> ('w, 'l, 'b) thread) \<Rightarrow> ('w, 'l, 'b) thread" where
  "bindT (Done r) f = (case r of Ret x \<Rightarrow> f x | Panic p \<Rightarrow> Done (Panic p))"
| "bindT (Act l u k) f = Act l u (\<lambda>w. bindT (k w) f)"
| "bindT (Tick l t) f = Tick l (bindT t f)"

definition retT :: "'a \<Rightarrow> ('w, 'l, 'a) thread" where
  "retT x = Done (Ret x)"

definition tickT :: "'l \<Rightarrow> 'a \<Rightarrow> ('w, 'l, 'a) thread" where
  "tickT l x = Tick l (Done (Ret x))"

definition extcallT :: "'l \<Rightarrow> ('w, 'a) act \<Rightarrow> ('w, 'l, 'a) thread" where
  "extcallT l f = Act l (\<lambda>w. snd (f w)) (\<lambda>w. Done (fst (f w)))"

primrec recoverT :: "('w, 'l, 'a) thread \<Rightarrow> ('w, 'l, unit) thread" where
  "recoverT (Done r) = Done (Ret ())"
| "recoverT (Act l u k) = Act l u (\<lambda>w. recoverT (k w))"
| "recoverT (Tick l t) = Tick l (recoverT t)"

section \<open>Alone\<close>

primrec runT :: "('w, 'l, 'a) thread \<Rightarrow> (('w, 'l) sys, 'a) eff" where
  "runT (Done r) s = (r, s)"
| "runT (Act l u k) s = runT (k (world s)) \<lparr>world = u (world s), calls = calls s @ [l]\<rparr>"
| "runT (Tick l t) s = runT t (s\<lparr>calls := calls s @ [l]\<rparr>)"

lemma runT_retT [simp]: "runT (retT x) = retE x"
  by (simp add: fun_eq_iff retT_def retE_apply)

lemma runT_extcallT [simp]: "runT (extcallT l f) = extcall l f"
  by (simp add: fun_eq_iff extcallT_def extcall_def split: prod.split)

lemma runT_tickT [simp]: "runT (tickT l x) = extcall l (retE x)"
  by (simp add: fun_eq_iff tickT_def extcall_def retE_apply)

lemma runT_bindT [simp]: "runT (bindT m f) = bindE (runT m) (\<lambda>x. runT (f x))"
proof
  show "runT (bindT m f) s = bindE (runT m) (\<lambda>x. runT (f x)) s" for s
    by (induction m arbitrary: s) (auto simp: bindE_apply split: outcome.split)
qed

lemma runT_recoverT [simp]: "runT (recoverT m) = recoverE (runT m)"
proof
  show "runT (recoverT m) s = recoverE (runT m) s" for s
    by (induction m arbitrary: s) (simp_all add: recoverE_apply)
qed

section \<open>Pools\<close>

text \<open>
  A configuration of a pool: the threads by number, the shared world, and the calls made so
  far, each with the number of its thread.
\<close>

record ('w, 'l, 'a) pool =
  threads :: "nat \<Rightarrow> ('w, 'l, 'a) thread"
  shared :: 'w
  history :: "(nat \<times> 'l) list"

text \<open>
  A thread makes its next call, or the rest of the program changes the shared world as far as
  \<open>drift\<close> allows: a deadline passes, a request is canceled, another program writes a table.
\<close>

inductive pool_step :: "('w \<Rightarrow> 'w \<Rightarrow> bool) \<Rightarrow> ('w, 'l, 'a) pool \<Rightarrow> ('w, 'l, 'a) pool \<Rightarrow> bool"
  for drift :: "'w \<Rightarrow> 'w \<Rightarrow> bool" where
  step: "threads c i = Act l u k \<Longrightarrow> pool_step drift c
     \<lparr>threads = (threads c)(i := k (shared c)), shared = u (shared c), history = history c @ [(i, l)]\<rparr>"
| tick: "threads c i = Tick l t \<Longrightarrow> pool_step drift c
     \<lparr>threads = (threads c)(i := t), shared = shared c, history = history c @ [(i, l)]\<rparr>"
| elsewhere: "drift (shared c) w \<Longrightarrow> pool_step drift c (c\<lparr>shared := w\<rparr>)"

inductive_cases pool_stepE: "pool_step drift c d"

definition startPool :: "(nat \<Rightarrow> ('w, 'l, 'a) thread) \<Rightarrow> 'w \<Rightarrow> ('w, 'l, 'a) pool" where
  "startPool ts w = \<lparr>threads = ts, shared = w, history = []\<rparr>"

definition callsOf :: "nat \<Rightarrow> (nat \<times> 'l) list \<Rightarrow> 'l list" where
  "callsOf i h = map snd (filter (\<lambda>(j, _). j = i) h)"

lemma callsOf_simps [simp]: "callsOf i [] = []" "callsOf i (h @ h') = callsOf i h @ callsOf i h'"
  "callsOf i [(j, l)] = (if i = j then [l] else [])"
  by (auto simp: callsOf_def)

section \<open>Contracts under interference\<close>

text \<open>
  \<open>upholds I t tr Q\<close>: the thread \<open>t\<close>, having made the calls \<open>tr\<close>, keeps the invariant \<open>I\<close> of the
  world with every call, whatever world that satisfies \<open>I\<close> it finds there, and when it ends
  its calls and its outcome satisfy \<open>Q\<close>.
\<close>

primrec upholds :: "('w \<Rightarrow> bool) \<Rightarrow> ('l list \<Rightarrow> 'a outcome \<Rightarrow> bool) \<Rightarrow> ('w, 'l, 'a) thread \<Rightarrow> 'l list \<Rightarrow> bool" where
  "upholds I Q (Done r) tr = Q tr r"
| "upholds I Q (Act l u k) tr = (\<forall>w. I w \<longrightarrow> I (u w) \<and> upholds I Q (k w) (tr @ [l]))"
| "upholds I Q (Tick l t) tr = upholds I Q t (tr @ [l])"

text \<open>A pool of threads that uphold their contracts keeps the invariant, and the contracts.\<close>

lemma pool_upholds:
  assumes "(pool_step drift)\<^sup>*\<^sup>* (startPool ts w) c" and "I w" and "\<And>i. upholds I (Q i) (ts i) []"
    and "\<And>w w'. I w \<Longrightarrow> drift w w' \<Longrightarrow> I w'"
  shows "I (shared c) \<and> (\<forall>i. upholds I (Q i) (threads c i) (callsOf i (history c)))"
  using assms(1)
proof (induction rule: rtranclp_induct)
  case base
  with assms(2,3) show ?case by (simp add: startPool_def)
next
  case (step c d)
  then have I: "I (shared c)" and up: "\<And>j. upholds I (Q j) (threads c j) (callsOf j (history c))" by blast+
  from step.hyps(2) show ?case
  proof cases
    case (step i l u k)
    with up [of i] I have "I (u (shared c))" "upholds I (Q i) (k (shared c)) (callsOf i (history c) @ [l])" by simp_all
    with up step show ?thesis by simp
  next
    case (tick i l t)
    with up [of i] have "upholds I (Q i) t (callsOf i (history c) @ [l])" by simp
    with up I tick show ?thesis by simp
  next
    case (elsewhere w')
    with up assms(4) [OF I] show ?thesis by simp
  qed
qed

lemma upholds_mono:
  assumes "upholds I Q t tr" and "\<And>tr r. Q tr r \<Longrightarrow> R tr r"
  shows "upholds I R t tr"
  using assms(1) by (induction t arbitrary: tr) (auto intro: assms(2))

lemma upholds_trivial: "upholds (\<lambda>_. True) (\<lambda>tr r. True) t tr"
  by (induction t arbitrary: tr) simp_all

lemma upholds_bind:
  assumes "upholds I P m tr" and "\<And>tr p. P tr (Panic p) \<Longrightarrow> Q tr (Panic p)"
    and "\<And>tr x. P tr (Ret x) \<Longrightarrow> upholds I Q (f x) tr"
  shows "upholds I Q (bindT m f) tr"
  using assms(1) by (induction m arbitrary: tr) (auto intro: assms(2,3) split: outcome.split)

text \<open>The calls a thread made are a fact about it: contracts can be stated from any point on.\<close>

lemma upholds_shift: "upholds I (\<lambda>tr r. Q (pre @ tr) r) t tr = upholds I Q t (pre @ tr)"
  by (induction t arbitrary: tr) simp_all

section \<open>Foresight\<close>

text \<open>
  A thread in a pool meets at its calls the worlds \<open>o 0\<close>, \<open>o 1\<close>, and so on. Running its calls
  on such a sequence instead of a world makes interference part of the world, so that what
  holds of an effect for all worlds holds under interference.
\<close>

definition foreseen :: "('w, 'a) act \<Rightarrow> (nat \<Rightarrow> 'w, 'a) act" where
  "foreseen f = (\<lambda>future. (fst (f (future 0)), \<lambda>n. future (Suc n)))"

primrec foreseenT :: "('w, 'l, 'a) thread \<Rightarrow> (nat \<Rightarrow> 'w, 'l, 'a) thread" where
  "foreseenT (Done r) = Done r"
| "foreseenT (Act l u k) = Act l (\<lambda>future n. future (Suc n)) (\<lambda>future. foreseenT (k (future 0)))"
| "foreseenT (Tick l t) = Tick l (foreseenT t)"

lemma foreseenT_simps [simp]:
  "foreseenT (retT x) = retT x"
  "foreseenT (tickT l x) = tickT l x"
  "foreseenT (extcallT l f) = extcallT l (foreseen f)"
  "foreseenT (recoverT t) = recoverT (foreseenT t)"
  by (simp_all add: retT_def tickT_def extcallT_def foreseen_def) (induction t, simp_all)

lemma foreseenT_bindT [simp]: "foreseenT (bindT m f) = bindT (foreseenT m) (\<lambda>x. foreseenT (f x))"
  by (induction m) (simp_all split: outcome.split)

lemma upholds_transfer:
  assumes "\<And>future. Q (calls (snd (runT (foreseenT t) \<lparr>world = future, calls = tr\<rparr>)))
      (fst (runT (foreseenT t) \<lparr>world = future, calls = tr\<rparr>))"
  shows "upholds (\<lambda>_. True) Q t tr"
  using assms
proof (induction t arbitrary: tr)
  case (Done r)
  from Done.prems [of undefined] show ?case by simp
next
  case (Act l u k)
  have "upholds (\<lambda>_. True) Q (k w) (tr @ [l])" for w
  proof (rule Act.IH [OF rangeI])
    fix future
    from Act.prems [of "case_nat w future"]
    show "Q (calls (snd (runT (foreseenT (k w)) \<lparr>world = future, calls = tr @ [l]\<rparr>)))
        (fst (runT (foreseenT (k w)) \<lparr>world = future, calls = tr @ [l]\<rparr>))" by simp
  qed
  then show ?case by simp
next
  case (Tick l t)
  have "upholds (\<lambda>_. True) Q t (tr @ [l])" using Tick.prems by (intro Tick.IH) simp
  then show ?case by simp
qed

section \<open>Ends\<close>

text \<open>
  Threads end: the calls of a thread at any moment begin a run that meets its contract, and a
  pool in which no thread can move has ended.
\<close>

lemma upholds_extends:
  assumes "upholds I Q t tr" and "I w"
  shows "\<exists>more r. Q (tr @ more) r"
  using assms
proof (induction t arbitrary: tr w)
  case (Done r)
  then show ?case by (metis append_Nil2 upholds.simps(1))
next
  case (Act l u k)
  then have "upholds I Q (k w) (tr @ [l])" "I (u w)" by auto
  from Act.IH [OF rangeI this] show ?case by (metis append.assoc)
next
  case (Tick l t)
  then have "upholds I Q t (tr @ [l])" by simp
  from Tick.IH [OF this Tick.prems(2)] show ?case by (metis append.assoc)
qed

text \<open>A thread that has not ended can make its next call.\<close>

lemma thread_moves:
  assumes "\<nexists>r. threads c i = Done r"
  shows "\<exists>d. pool_step drift c d \<and> length (history d) = Suc (length (history c))"
proof (cases "threads c i")
  case (Act l u k)
  from pool_step.step [OF this] show ?thesis by fastforce
next
  case (Tick l t)
  from pool_step.tick [OF this] show ?thesis by fastforce
qed (use assms in simp)

lemma history_length:
  assumes "\<forall>x \<in> set h. fst x < n"
  shows "length h = (\<Sum>i<n. length (callsOf i h))"
  using assms
proof (induction h)
  case (Cons x h)
  obtain i l where x: "x = (i, l)" by fastforce
  then have "i < n" using Cons.prems by simp
  have "callsOf j (x # h) = (if j = i then [l] else []) @ callsOf j h" for j
    using callsOf_simps(2) [of j "[x]" h] by (simp add: x)
  then have "(\<Sum>j<n. length (callsOf j (x # h))) = (\<Sum>j<n. (if j = i then 1 else 0) + length (callsOf j h))"
    by (intro sum.cong) simp_all
  also have "\<dots> = 1 + (\<Sum>j<n. length (callsOf j h))"
    using \<open>i < n\<close> by (simp add: sum.distrib)
  also have "(\<Sum>j<n. length (callsOf j h)) = length h" using Cons by simp
  finally show ?case by simp
qed simp

lemma history_threads:
  assumes "\<And>j. n \<le> j \<Longrightarrow> callsOf j h = []"
  shows "\<forall>x \<in> set h. fst x < n"
proof
  fix x assume "x \<in> set h"
  then have "callsOf (fst x) h \<noteq> []" by (force simp: callsOf_def filter_empty_conv)
  with assms [of "fst x"] show "fst x < n" by (meson not_le)
qed

text \<open>A pool whose runs are bounded can always be run to its end.\<close>

lemma pool_finishes:
  assumes "\<And>d. (pool_step drift)\<^sup>*\<^sup>* c d \<Longrightarrow> length (history d) \<le> n"
  shows "\<exists>d. (pool_step drift)\<^sup>*\<^sup>* c d \<and> (\<forall>i. \<exists>r. threads d i = Done r)"
  using assms
proof (induction "n - length (history c)" arbitrary: c rule: less_induct)
  case less
  show ?case
  proof (cases "\<forall>i. \<exists>r. threads c i = Done r")
    case False
    then obtain d where d: "pool_step drift c d" "length (history d) = Suc (length (history c))"
      using thread_moves by metis
    with less.prems [OF r_into_rtranclp [where r = "pool_step drift", OF d(1)]]
    have "n - length (history d) < n - length (history c)" by simp
    from less.hyps [OF this] less.prems d(1) obtain f where
      "(pool_step drift)\<^sup>*\<^sup>* d f" "\<forall>i. \<exists>r. threads f i = Done r"
      by (meson converse_rtranclp_into_rtranclp)
    with d(1) show ?thesis by (meson converse_rtranclp_into_rtranclp)
  qed blast
qed

text \<open>Letting one thread run to its end runs it alone.\<close>

lemma pool_runs:
  assumes "threads c i = t" and "world s = shared c"
  shows "\<exists>d h. (pool_step drift)\<^sup>*\<^sup>* c d \<and> threads d i = Done (fst (runT t s)) \<and>
     (\<forall>j. j \<noteq> i \<longrightarrow> threads d j = threads c j) \<and> shared d = world (snd (runT t s)) \<and>
     history d = history c @ map (Pair i) h \<and> calls (snd (runT t s)) = calls s @ h"
  using assms
proof (induction t arbitrary: c s)
  case (Done r)
  then show ?case by (intro exI [of _ c] exI [of _ "[]"]) simp
next
  case (Act l u k)
  let ?d = "\<lparr>threads = (threads c)(i := k (shared c)), shared = u (shared c), history = history c @ [(i, l)]\<rparr>"
  let ?s = "\<lparr>world = u (world s), calls = calls s @ [l]\<rparr>"
  note first = pool_step.step [OF Act.prems(1), of drift]
  from Act.IH [OF rangeI [of k "shared c"], of ?d ?s] Act.prems(2) obtain d h where
    "(pool_step drift)\<^sup>*\<^sup>* ?d d" "threads d i = Done (fst (runT (k (shared c)) ?s))"
    "\<forall>j. j \<noteq> i \<longrightarrow> threads d j = threads c j" "shared d = world (snd (runT (k (shared c)) ?s))"
    "history d = history c @ map (Pair i) (l # h)" "calls (snd (runT (k (shared c)) ?s)) = calls s @ l # h"
    by auto
  with converse_rtranclp_into_rtranclp [where r = "pool_step drift", OF first] Act.prems(2) show ?case
    by (intro exI [of _ d] exI [of _ "l # h"]) simp
next
  case (Tick l t)
  let ?d = "\<lparr>threads = (threads c)(i := t), shared = shared c, history = history c @ [(i, l)]\<rparr>"
  let ?s = "s\<lparr>calls := calls s @ [l]\<rparr>"
  note first = pool_step.tick [OF Tick.prems(1), of drift]
  from Tick.IH [of ?d ?s] Tick.prems(2) obtain d h where
    "(pool_step drift)\<^sup>*\<^sup>* ?d d" "threads d i = Done (fst (runT t ?s))"
    "\<forall>j. j \<noteq> i \<longrightarrow> threads d j = threads c j" "shared d = world (snd (runT t ?s))"
    "history d = history c @ map (Pair i) (l # h)" "calls (snd (runT t ?s)) = calls s @ l # h"
    by auto
  with converse_rtranclp_into_rtranclp [where r = "pool_step drift", OF first] show ?case
    by (intro exI [of _ d] exI [of _ "l # h"]) simp
qed

lemma callsOf_own [simp]: "callsOf i (map (Pair j) h) = (if i = j then h else [])"
  by (simp add: callsOf_def comp_def filter_map case_prod_unfold)

end
