(* ===== verification/Guard_Concurrent.thy ===== *)
theory Guard_Concurrent
  imports Guard_Threads Guard_Samples
begin

text \<open>
  Concurrent use of an engine. The operations of \<^verbatim>\<open>engine.go\<close> again, as threads that give way at
  every call of a context, the parser, a rule or a sink; the engine itself and prepared values
  are never written after their construction, so these calls are the only places where
  goroutines can meet. A collaborator's call is one step: that is the contract of rules and
  sinks, which must be immutable or synchronise their own state. Run alone, the threads are
  the operations of \<open>Guard_Engine\<close>; in a pool each keeps the protocol and the decision it has
  alone, and the pool ends.
\<close>

section \<open>The operations as threads\<close>

type_synonym ('w, 'a) routine = "('w, call, 'a) thread"

definition emitMetricsT :: "'w Metrics iface \<Rightarrow> ValidationEvent \<Rightarrow> ('w, unit) routine" where
  "emitMetricsT metrics event =
     (if metrics = None then retT ()
      else recoverT (extcallT (CallRecord event) (invoke (\<lambda>m. RecordValidation m event) metrics)))"

definition emitLoggerT :: "'w Logger iface \<Rightarrow> ValidationEvent \<Rightarrow> ('w, unit) routine" where
  "emitLoggerT logger event =
     (if logger = None then retT ()
      else recoverT (extcallT (CallLog event) (invoke (\<lambda>l. LogValidation l event) logger)))"

definition finishValidationT ::
    "'w Engine \<Rightarrow> ValidationOutcome \<Rightarrow> string \<Rightarrow> error \<Rightarrow> ('w, error) routine" where
  "finishValidationT e outcome ruleID result =
     (let event = newValidationEvent ValidationModeEnforce outcome ruleID
      in bindT (emitMetricsT (engine_metrics e) event) (\<lambda>_.
         bindT (emitLoggerT (engine_logger e) event) (\<lambda>_.
         retT result)))"

definition ctxErrT :: "'w Context \<Rightarrow> ('w, error) routine" where
  "ctxErrT ctx = extcallT CallCtxErr (ctx_Err ctx)"

definition callParseT :: "backend \<Rightarrow> string \<Rightarrow> ('w, Result option \<times> error) routine" where
  "callParseT parseBackend sql = tickT (CallParse sql) (Parse parseBackend sql)"

definition PrepareT ::
    "backend \<Rightarrow> 'w Engine \<Rightarrow> 'w Context \<Rightarrow> string \<Rightarrow> ('w, Prepared \<times> error) routine" where
  "PrepareT parseBackend e ctx sql =
     bindT (ctxErrT ctx) (\<lambda>err.
       if err \<noteq> None
       then bindT (finishValidationT e ValidationOutcomeCanceled '''' err)
              (\<lambda>r. retT (zeroPrepared, r))
       else bindT (callParseT parseBackend sql) (\<lambda>(result, parseErr).
         bindT (ctxErrT ctx) (\<lambda>err.
           if err \<noteq> None
           then bindT (finishValidationT e ValidationOutcomeCanceled '''' err)
                  (\<lambda>r. retT (zeroPrepared, r))
           else if parseErr \<noteq> None
           then bindT (finishValidationT e ValidationOutcomeParserFailure ''''
                         (translateParserError parseErr))
                  (\<lambda>r. retT (zeroPrepared, r))
           else retT (\<lparr>prepared_result = result\<rparr>, None))))"

definition callEvaluateT ::
    "'w registeredRule \<Rightarrow> 'w Context \<Rightarrow> Statement \<Rightarrow> ('w, RuleResult) routine" where
  "callEvaluateT registration ctx statement =
     extcallT (CallEvaluate (reg_ruleID registration) statement)
       (invoke (\<lambda>r. rule_Evaluate r ctx statement) (reg_rule registration))"

fun evaluateRulesT ::
    "'w Engine \<Rightarrow> 'w Context \<Rightarrow> Statement \<Rightarrow> 'w registeredRule list \<Rightarrow> ('w, error option) routine" where
  "evaluateRulesT e ctx statement [] = retT None"
| "evaluateRulesT e ctx statement (registration # rest) =
     bindT (ctxErrT ctx) (\<lambda>err.
       if err \<noteq> None
       then bindT (finishValidationT e ValidationOutcomeCanceled '''' err) (\<lambda>r. retT (Some r))
       else bindT (callEvaluateT registration ctx statement) (\<lambda>decision.
         if Rejected decision
         then bindT (finishValidationT e ValidationOutcomePolicyViolation (reg_ruleID registration)
                       (Some (ViolationErr (newViolation (reg_ruleID registration)))))
                (\<lambda>r. retT (Some r))
         else evaluateRulesT e ctx statement rest))"

fun evaluateStatementsT ::
    "'w Engine \<Rightarrow> 'w Context \<Rightarrow> Node option list \<Rightarrow> ('w, error option) routine" where
  "evaluateStatementsT e ctx [] = retT None"
| "evaluateStatementsT e ctx (root # rest) =
     bindT (evaluateRulesT e ctx (newStatement root) (engine_rules e)) (\<lambda>returned.
       case returned of
         Some r \<Rightarrow> retT (Some r)
       | None \<Rightarrow> evaluateStatementsT e ctx rest)"

definition ValidatePreparedT ::
    "'w Engine \<Rightarrow> 'w Context \<Rightarrow> Prepared \<Rightarrow> ('w, error) routine" where
  "ValidatePreparedT e ctx prepared =
     bindT (ctxErrT ctx) (\<lambda>err.
       if err \<noteq> None then finishValidationT e ValidationOutcomeCanceled '''' err
       else if prepared_result prepared = None
       then finishValidationT e ValidationOutcomeInvalidPrepared '''' (Some ErrInvalidPrepared)
       else bindT (evaluateStatementsT e ctx (StatementSequence (prepared_result prepared)))
         (\<lambda>returned.
            case returned of
              Some r \<Rightarrow> retT r
            | None \<Rightarrow> finishValidationT e ValidationOutcomeAllowed '''' None))"

definition ValidateT ::
    "backend \<Rightarrow> 'w Engine \<Rightarrow> 'w Context \<Rightarrow> string \<Rightarrow> ('w, error) routine" where
  "ValidateT parseBackend e ctx sql =
     bindT (PrepareT parseBackend e ctx sql) (\<lambda>(prepared, err).
       if err \<noteq> None then retT err else ValidatePreparedT e ctx prepared)"

section \<open>Run alone\<close>

lemmas if_option_distribs =
  if_distrib [where f = runT] option.case_distrib [where h = runT] prod.case_distrib [where h = runT]

lemma runT_parts [simp]:
  "runT (finishValidationT e outc ruleID result) = finishValidation e outc ruleID result"
  "runT (ctxErrT ctx) = ctxErr ctx"
  "runT (callParseT b sql) = callParse b sql"
  "runT (callEvaluateT registration ctx st) = callEvaluate registration ctx st"
  by (simp_all add: finishValidationT_def finishValidation_def emitMetricsT_def emitMetrics_def
      emitLoggerT_def emitLogger_def isolateObservabilityFailure_def ctxErrT_def ctxErr_def
      callParseT_def callParse_def callEvaluateT_def callEvaluate_def Let_def if_option_distribs)

lemma runT_evaluateRulesT [simp]: "runT (evaluateRulesT e ctx st regs) = evaluateRules e ctx st regs"
  by (induction regs) (simp_all add: if_option_distribs cong: if_cong)

lemma runT_evaluateStatementsT [simp]: "runT (evaluateStatementsT e ctx roots) = evaluateStatements e ctx roots"
  by (induction roots) (simp_all add: if_option_distribs cong: option.case_cong)

lemma runT_PrepareT: "runT (PrepareT b e ctx sql) = Prepare b e ctx sql"
  by (simp add: PrepareT_def Prepare_def if_option_distribs cong: if_cong)

lemma runT_ValidatePreparedT: "runT (ValidatePreparedT e ctx p) = ValidatePrepared e ctx p"
  by (simp add: ValidatePreparedT_def ValidatePrepared_def if_option_distribs cong: if_cong option.case_cong)

lemma runT_ValidateT: "runT (ValidateT b e ctx sql) = Validate b e ctx sql"
  by (simp add: ValidateT_def Validate_def runT_PrepareT runT_ValidatePreparedT if_option_distribs cong: if_cong)

section \<open>In the future\<close>

text \<open>
  The engine and the context as one thread meets them when it foresees the worlds of its
  calls. Only the context of this thread is ever handed to its rules.
\<close>

definition foreseenContext :: "'w Context \<Rightarrow> (nat \<Rightarrow> 'w) Context" where
  "foreseenContext ctx = \<lparr>ctx_Err = foreseen (ctx_Err ctx), ctx_values = ctx_values ctx\<rparr>"

definition foreseenRule :: "'w Context \<Rightarrow> 'w Rule iface \<Rightarrow> (nat \<Rightarrow> 'w) Rule iface" where
  "foreseenRule ctx rule =
     Some \<lparr>dyn_kind = Struct, dyn_isNil = False,
       dyn_val = \<lparr>rule_ID = foreseen (invoke rule_ID rule),
         rule_Evaluate = (\<lambda>_ st. foreseen (invoke (\<lambda>r. rule_Evaluate r ctx st) rule))\<rparr>\<rparr>"

definition foreseenRegistration :: "'w Context \<Rightarrow> 'w registeredRule \<Rightarrow> (nat \<Rightarrow> 'w) registeredRule" where
  "foreseenRegistration ctx registration =
     \<lparr>reg_ruleID = reg_ruleID registration, reg_rule = foreseenRule ctx (reg_rule registration)\<rparr>"

definition foreseenMetrics :: "'w Metrics iface \<Rightarrow> (nat \<Rightarrow> 'w) Metrics iface" where
  "foreseenMetrics = map_option (\<lambda>d. \<lparr>dyn_kind = dyn_kind d, dyn_isNil = dyn_isNil d,
     dyn_val = \<lparr>RecordValidation = (\<lambda>ev. foreseen (RecordValidation (dyn_val d) ev))\<rparr>\<rparr>)"

definition foreseenLogger :: "'w Logger iface \<Rightarrow> (nat \<Rightarrow> 'w) Logger iface" where
  "foreseenLogger = map_option (\<lambda>d. \<lparr>dyn_kind = dyn_kind d, dyn_isNil = dyn_isNil d,
     dyn_val = \<lparr>LogValidation = (\<lambda>ev. foreseen (LogValidation (dyn_val d) ev))\<rparr>\<rparr>)"

definition foreseenEngine :: "'w Context \<Rightarrow> 'w Engine \<Rightarrow> (nat \<Rightarrow> 'w) Engine" where
  "foreseenEngine ctx e =
     \<lparr>engine_rules = map (foreseenRegistration ctx) (engine_rules e),
      engine_metrics = foreseenMetrics (engine_metrics e), engine_logger = foreseenLogger (engine_logger e)\<rparr>"

lemmas foreseen_distribs =
  if_distrib [where f = foreseenT] option.case_distrib [where h = foreseenT] prod.case_distrib [where h = foreseenT]

lemma foreseen_parts [simp]:
  "foreseenT (ctxErrT ctx) = ctxErrT (foreseenContext ctx)"
  "foreseenT (callParseT b sql) = callParseT b sql"
  "foreseenT (callEvaluateT registration ctx st) =
     callEvaluateT (foreseenRegistration ctx registration) (foreseenContext ctx) st"
  by (simp_all add: ctxErrT_def foreseenContext_def callParseT_def callEvaluateT_def foreseenRegistration_def
      foreseenRule_def invoke_def)

lemma foreseen_finish:
  "foreseenT (finishValidationT e outc ruleID result) = finishValidationT (foreseenEngine ctx e) outc ruleID result"
  by (auto simp: finishValidationT_def emitMetricsT_def emitLoggerT_def foreseenEngine_def foreseenMetrics_def
      foreseenLogger_def invoke_def Let_def foreseen_distribs)

lemma foreseenEngine_sel [simp]:
  "reg_ruleID (foreseenRegistration ctx registration) = reg_ruleID registration"
  "engine_rules (foreseenEngine ctx e) = map (foreseenRegistration ctx) (engine_rules e)"
  by (simp_all add: foreseenRegistration_def foreseenEngine_def)

lemma foreseen_evaluateRulesT:
  "foreseenT (evaluateRulesT e ctx st regs) =
     evaluateRulesT (foreseenEngine ctx e) (foreseenContext ctx) st (map (foreseenRegistration ctx) regs)"
  by (induction regs) (simp_all add: foreseen_distribs foreseen_finish [where ctx = ctx] cong: if_cong)

lemma foreseen_evaluateStatementsT:
  "foreseenT (evaluateStatementsT e ctx roots) =
     evaluateStatementsT (foreseenEngine ctx e) (foreseenContext ctx) roots"
  by (induction roots) (simp_all add: foreseen_distribs foreseen_evaluateRulesT cong: option.case_cong)

lemma foreseen_PrepareT:
  "foreseenT (PrepareT b e ctx sql) = PrepareT b (foreseenEngine ctx e) (foreseenContext ctx) sql"
  by (simp add: PrepareT_def foreseen_distribs foreseen_finish [where ctx = ctx] cong: if_cong)

lemma foreseen_ValidatePreparedT:
  "foreseenT (ValidatePreparedT e ctx p) = ValidatePreparedT (foreseenEngine ctx e) (foreseenContext ctx) p"
  by (simp add: ValidatePreparedT_def foreseen_distribs foreseen_finish [where ctx = ctx]
      foreseen_evaluateStatementsT cong: if_cong option.case_cong)

lemma foreseen_ValidateT:
  "foreseenT (ValidateT b e ctx sql) = ValidateT b (foreseenEngine ctx e) (foreseenContext ctx) sql"
  by (simp add: ValidateT_def foreseen_distribs foreseen_PrepareT foreseen_ValidatePreparedT cong: if_cong)

text \<open>What a foreseen engine shares with the engine.\<close>

lemma foreseen_emissions [simp]: "emissions (foreseenEngine ctx e) ev = emissions e ev"
  by (simp add: emissions_def foreseenEngine_def foreseenMetrics_def foreseenLogger_def)

lemma foreseen_checkLabels [simp]: "checkLabels (checks (foreseenEngine ctx e) roots) = checkLabels (checks e roots)"
  by (induction roots) (simp_all add: checks_def statementChecks_def checkLabels_def)

lemma foreseen_active: "active ctx \<Longrightarrow> active (foreseenContext ctx)"
  by (simp add: active_def foreseenContext_def foreseen_def)

lemma foreseen_decides: "deciding_engine e pol \<Longrightarrow> deciding_engine (foreseenEngine ctx e) pol"
  by (auto simp: deciding_engine_def list_all2_map1 decides_def foreseenRegistration_def foreseenRule_def
      invoke_def foreseen_def elim: list_all2_mono)

section \<open>Pools of validations\<close>

text \<open>
  What a goroutine may do with an engine: validate SQL, or validate a value somebody prepared.
  The engines of the requests may be the same or different, and so may the contexts and the
  prepared values.
\<close>

datatype 'w request =
    ValidateSQL "'w Engine" "'w Context" string
  | ValidateValue "'w Engine" "'w Context" Prepared

fun requestEngine :: "'w request \<Rightarrow> 'w Engine" where
  "requestEngine (ValidateSQL e ctx sql) = e"
| "requestEngine (ValidateValue e ctx p) = e"

fun requestContext :: "'w request \<Rightarrow> 'w Context" where
  "requestContext (ValidateSQL e ctx sql) = ctx"
| "requestContext (ValidateValue e ctx p) = ctx"

fun serve :: "backend \<Rightarrow> 'w request \<Rightarrow> ('w, error) routine" where
  "serve b (ValidateSQL e ctx sql) = ValidateT b e ctx sql"
| "serve b (ValidateValue e ctx p) = ValidatePreparedT e ctx p"

text \<open>The operation of a request, alone.\<close>

fun operation :: "backend \<Rightarrow> 'w request \<Rightarrow> ('w, error) prog" where
  "operation b (ValidateSQL e ctx sql) = Validate b e ctx sql"
| "operation b (ValidateValue e ctx p) = ValidatePrepared e ctx p"

text \<open>The statements a request has to check.\<close>

fun requestStatements :: "backend \<Rightarrow> 'w request \<Rightarrow> Node option list" where
  "requestStatements b (ValidateSQL e ctx sql) = StatementSequence (fst (Parse b sql))"
| "requestStatements b (ValidateValue e ctx p) = StatementSequence (prepared_result p)"

fun foreseenRequest :: "'w request \<Rightarrow> (nat \<Rightarrow> 'w) request" where
  "foreseenRequest (ValidateSQL e ctx sql) = ValidateSQL (foreseenEngine ctx e) (foreseenContext ctx) sql"
| "foreseenRequest (ValidateValue e ctx p) = ValidateValue (foreseenEngine ctx e) (foreseenContext ctx) p"

definition servePool :: "backend \<Rightarrow> 'w request list \<Rightarrow> nat \<Rightarrow> ('w, error) routine" where
  "servePool b requests i = (if i < length requests then serve b (requests ! i) else retT None)"

lemma serve_alone: "runT (serve b q) = operation b q"
  by (cases q) (simp_all add: runT_ValidateT runT_ValidatePreparedT)

lemma serve_foreseen: "foreseenT (serve b q) = serve b (foreseenRequest q)"
  by (cases q) (simp_all add: foreseen_ValidateT foreseen_ValidatePreparedT)

text \<open>What the operation promises from every world, its thread upholds.\<close>

lemma serve_upholds:
  assumes "\<And>w. Q (calls (snd (operation b (foreseenRequest q) \<lparr>world = w, calls = []\<rparr>)))
      (fst (operation b (foreseenRequest q) \<lparr>world = w, calls = []\<rparr>))"
  shows "upholds (\<lambda>_. True) Q (serve b q) []"
  using assms by (intro upholds_transfer) (simp add: serve_foreseen serve_alone)


section \<open>The contract of a request\<close>

definition requestLabels :: "backend \<Rightarrow> 'w request \<Rightarrow> (string \<times> Statement) list" where
  "requestLabels b q = checkLabels (checks (requestEngine q) (requestStatements b q))"

definition requestBound :: "backend \<Rightarrow> 'w request \<Rightarrow> nat" where
  "requestBound b q = 6 + 2 * (length (requestStatements b q) * length (engine_rules (requestEngine q)))"

text \<open>
  What a finished request has done: it returned, and its calls are evaluations in order and then one event that tells its
  result; or a collaborator panicked before any event.
\<close>

definition served :: "backend \<Rightarrow> 'w request \<Rightarrow> call list \<Rightarrow> error outcome \<Rightarrow> bool" where
  "served b q trace r =
     (orderly (requestLabels b q) trace r \<and> (\<forall>err. r = Ret err \<longrightarrow> reports (requestEngine q) err trace) \<and>
      length trace \<le> requestBound b q)"

lemma operation_reports:
  assumes "operation b q s = (Ret err, t)"
  shows "\<exists>trace. calls t = calls s @ trace \<and> reports (requestEngine q) err trace"
proof (cases q)
  case (ValidateSQL e ctx sql)
  with assms Validate_run [of b e ctx sql s err t] show ?thesis by (auto dest: validate_run_reports)
next
  case (ValidateValue e ctx p)
  with assms ValidatePrepared_run [of e ctx p s err t] show ?thesis by (auto dest: prepared_run_reports)
qed

lemma operation_served: "tracks (served b q) (operation b q)"
proof -
  have order: "tracks (\<lambda>tr r. orderly (requestLabels b q) tr r) (operation b q)"
    by (cases q) (simp_all add: requestLabels_def Validate_orderly ValidatePrepared_orderly)
  have bound: "tracks (within (requestBound b q)) (operation b q)"
  proof (cases q)
    case (ValidateSQL e ctx sql)
    then show ?thesis using Validate_within [of e b sql ctx] by (simp add: requestBound_def length_checkCalls)
  next
    case (ValidateValue e ctx p)
    then show ?thesis
      by (auto simp: requestBound_def intro!: within_mono [OF ValidatePrepared_within] simp: length_checkCalls)
  qed
  have "tracks (\<lambda>tr r. \<forall>err. r = Ret err \<longrightarrow> reports (requestEngine q) err tr) (operation b q)"
    unfolding tracks_def
  proof
    fix s
    obtain r t where run: "operation b q s = (r, t)" by fastforce
    from order obtain trace where "calls t = calls s @ trace"
      unfolding tracks_def by (metis run snd_conv)
    then show "\<exists>trace. calls (snd (operation b q s)) = calls s @ trace \<and>
        (\<forall>err. fst (operation b q s) = Ret err \<longrightarrow> reports (requestEngine q) err trace)"
      using operation_reports [of b q s _ t] run by (cases r) auto
  qed
  from tracks_conj [OF order tracks_conj [OF this bound]] show ?thesis
    by (simp add: served_def [abs_def] within_def)
qed

lemma foreseen_served [simp]: "served b (foreseenRequest q) = served b q"
  by (cases q) (simp_all add: fun_eq_iff served_def requestLabels_def requestBound_def reports_def)

lemma serve_served: "upholds (\<lambda>_. True) (served b q) (serve b q) []"
  using tracks_from_start [OF operation_served [of b "foreseenRequest q"]] by (intro serve_upholds) simp

lemma pool_served:
  assumes "(pool_step drift)\<^sup>*\<^sup>* (startPool (servePool b requests) w) c"
  shows "i < length requests \<Longrightarrow>
      upholds (\<lambda>_. True) (served b (requests ! i)) (threads c i) (callsOf i (history c))"
    and "length requests \<le> i \<Longrightarrow> callsOf i (history c) = []"
proof -
  let ?Q = "\<lambda>i. if i < length requests then served b (requests ! i) else (\<lambda>tr r. tr = [])"
  have "upholds (\<lambda>_. True) (?Q i) (servePool b requests i) []" for i
    by (simp add: servePool_def serve_served retT_def)
  from pool_upholds [OF assms, of "\<lambda>_. True", OF TrueI this TrueI]
  have up: "upholds (\<lambda>_. True) (?Q i) (threads c i) (callsOf i (history c))" for i by blast
  show "i < length requests \<Longrightarrow>
      upholds (\<lambda>_. True) (served b (requests ! i)) (threads c i) (callsOf i (history c))"
    using up [of i] by simp
  show "length requests \<le> i \<Longrightarrow> callsOf i (history c) = []"
    using upholds_extends [OF up TrueI, of i] by simp
qed

lemma pool_bounded:
  assumes "(pool_step drift)\<^sup>*\<^sup>* (startPool (servePool b requests) w) c"
  shows "length (history c) \<le> (\<Sum>q \<leftarrow> requests. requestBound b q)"
proof -
  have "length (callsOf i (history c)) \<le> requestBound b (requests ! i)" if "i < length requests" for i
    using upholds_extends [OF pool_served(1) [OF assms that] TrueI] by (auto simp: served_def)
  then have "(\<Sum>i<length requests. length (callsOf i (history c))) \<le>
      (\<Sum>i<length requests. requestBound b (requests ! i))"
    by (intro sum_mono) simp
  then show ?thesis
    using history_length [OF history_threads [OF pool_served(2) [OF assms]]]
    by (simp add: sum_list_sum_nth atLeast0LessThan)
qed

lemma pool_ends:
  assumes "(pool_step drift)\<^sup>*\<^sup>* (startPool (servePool b requests) w) c"
  shows "\<exists>d. (pool_step drift)\<^sup>*\<^sup>* c d \<and> (\<forall>i. \<exists>r. threads d i = Done r)"
proof (rule pool_finishes)
  show "length (history d) \<le> (\<Sum>q \<leftarrow> requests. requestBound b q)" if "(pool_step drift)\<^sup>*\<^sup>* c d" for d
    by (rule pool_bounded [OF rtranclp_trans [OF assms that]])
qed

section \<open>The decision of a request\<close>

fun requestDecision :: "policy \<Rightarrow> backend \<Rightarrow> 'w request \<Rightarrow> error" where
  "requestDecision pol b (ValidateSQL e ctx sql) =
     (case Parse b sql of
        (result, None) \<Rightarrow> policyDecision pol result
      | (result, Some err) \<Rightarrow> translateParserError (Some err))"
| "requestDecision pol b (ValidateValue e ctx p) =
     (case prepared_result p of None \<Rightarrow> Some ErrInvalidPrepared | Some r \<Rightarrow> policyDecision pol (Some r))"

lemma operation_decides:
  assumes "deciding_engine (requestEngine q) pol" and "active (requestContext q)"
  shows "fst (operation b q s) = Ret (requestDecision pol b q)"
  using assms
  by (cases q) (simp_all add: deciding_engine.Validate_decides deciding_engine.ValidatePrepared_decides)

lemma foreseenRequest_sel:
  "requestEngine (foreseenRequest q) = foreseenEngine (requestContext q) (requestEngine q)"
  "requestContext (foreseenRequest q) = foreseenContext (requestContext q)"
  "requestDecision pol b (foreseenRequest q) = requestDecision pol b q"
  by (cases q; simp)+

lemma serve_decides:
  assumes "deciding_engine (requestEngine q) pol" and "active (requestContext q)"
  shows "upholds (\<lambda>_. True) (\<lambda>tr r. r = Ret (requestDecision pol b q)) (serve b q) []"
proof (rule serve_upholds)
  have "deciding_engine (requestEngine (foreseenRequest q)) pol" "active (requestContext (foreseenRequest q))"
    using assms by (simp_all add: foreseenRequest_sel foreseen_decides foreseen_active)
  from operation_decides [OF this]
  show "fst (operation b (foreseenRequest q) s) = Ret (requestDecision pol b q)" for s
    by (simp add: foreseenRequest_sel)
qed

lemma pool_decides:
  assumes "(pool_step drift)\<^sup>*\<^sup>* (startPool (servePool b requests) w) c"
    and "i < length requests" and "deciding_engine (requestEngine (requests ! i)) pol"
    and "active (requestContext (requests ! i))" and "threads c i = Done r"
  shows "r = Ret (requestDecision pol b (requests ! i))"
proof -
  let ?Q = "\<lambda>j tr r. j = i \<longrightarrow> r = Ret (requestDecision pol b (requests ! i))"
  have "upholds (\<lambda>_. True) (?Q j) (servePool b requests j) []" for j
  proof (cases "j = i")
    case True
    then show ?thesis using serve_decides [OF assms(3,4), of b] assms(2) by (simp add: servePool_def)
  next
    case False
    with upholds_trivial [of "servePool b requests j" "[]"] show ?thesis by (elim upholds_mono) simp
  qed
  from pool_upholds [OF assms(1), of "\<lambda>_. True", OF TrueI this TrueI]
  have "upholds (\<lambda>_. True) (?Q i) (threads c i) (callsOf i (history c))" by blast
  with assms(5) show ?thesis by simp
qed

section \<open>Concurrent validations\<close>

text \<open>
  Two goroutines on one engine: the one validates SQL that violates a rule, the other a
  prepared value that does not.
\<close>

definition sampleRequests :: "unit request list" where
  "sampleRequests =
     [ValidateSQL sampleEngine Background ''DELETE FROM t'',
      ValidateValue sampleEngine Background \<lparr>prepared_result = fst (Parse sampleBackend ''DELETE FROM t WHERE c'')\<rparr>]"



text \<open>
  C9: concurrency changes no decision. Of an engine whose rules decide by the statement alone,
  whatever else they do, and of a context that stays active, each goroutine obtains the
  result the same operation has alone and from any state: the decision of the policy on
  its own statements.
\<close>

theorem concurrent_decisions_alone:
  assumes "(pool_step drift)\<^sup>*\<^sup>* (startPool (servePool b requests) w) c"
    and "i < length requests" and "deciding_engine (requestEngine (requests ! i)) pol"
    and "active (requestContext (requests ! i))" and "threads c i = Done r"
  shows "r = Ret (requestDecision pol b (requests ! i)) \<and> r = fst (operation b (requests ! i) s)"
  using pool_decides [OF assms] operation_decides [OF assms(3,4)] by simp

theorem concurrent_decisions_alone_witness:
  "\<exists>c. (pool_step (\<lambda>_ _. True))\<^sup>*\<^sup>* (startPool (servePool sampleBackend sampleRequests) ()) c \<and>
     threads c 0 = Done (Ret (Some (ViolationErr (newViolation ''delete_requires_where'')))) \<and>
     threads c 1 = Done (Ret None)"
proof -
  from pool_ends [OF rtranclp.rtrancl_refl] obtain c r0 r1 where
    c: "(pool_step (\<lambda>_ _. True))\<^sup>*\<^sup>* (startPool (servePool sampleBackend sampleRequests) ()) c"
    and finished: "threads c 0 = Done r0" "threads c 1 = Done r1" by metis
  have engine: "deciding_engine (requestEngine (sampleRequests ! i)) builtinPolicy"
    "active (requestContext (sampleRequests ! i))" if "i < 2" for i
    using that by (auto simp: sampleRequests_def sample.deciding.deciding_engine_axioms less_2_cases_iff)
  have "r0 = Ret (requestDecision builtinPolicy sampleBackend (sampleRequests ! 0))"
    "r1 = Ret (requestDecision builtinPolicy sampleBackend (sampleRequests ! 1))"
    using concurrent_decisions_alone [OF c _ engine finished(1)] concurrent_decisions_alone [OF c _ engine finished(2)]
    by (simp_all add: sampleRequests_def)
  moreover have "requestDecision builtinPolicy sampleBackend (sampleRequests ! 0) =
      Some (ViolationErr (newViolation ''delete_requires_where''))"
    by code_simp
  moreover have "requestDecision builtinPolicy sampleBackend (sampleRequests ! 1) = None" by code_simp
  ultimately show ?thesis using c finished by auto
qed

text \<open>
  C14: concurrent validations end. No schedule makes more calls than the requests together are
  allowed, whatever else happens to the world, and from every reachable configuration the pool
  can be run on until every goroutine has finished: they never wait for one another.
\<close>

theorem concurrent_requests_end:
  assumes "(pool_step drift)\<^sup>*\<^sup>* (startPool (servePool b requests) w) c"
  shows "length (history c) \<le>
       (\<Sum>q \<leftarrow> requests. 6 + 2 * (length (requestStatements b q) * length (engine_rules (requestEngine q)))) \<and>
     (\<exists>d. (pool_step drift)\<^sup>*\<^sup>* c d \<and> (\<forall>i. \<exists>r. threads d i = Done r))"
  using pool_bounded [OF assms] pool_ends [OF assms] by (simp add: requestBound_def)

theorem concurrent_requests_end_witness:
  "\<exists>d. (pool_step (\<lambda>_ _. True))\<^sup>*\<^sup>* (startPool (servePool sampleBackend sampleRequests) ()) d \<and>
     (\<forall>i. \<exists>r. threads d i = Done r)"
  by (rule concurrent_requests_end [OF rtranclp.rtrancl_refl, THEN conjunct2])

end
