(* ===== verification/Example_Pgx.thy ===== *)
theory Example_Pgx
  imports Guard_Samples
begin

text \<open>
  The guarded database of \<^verbatim>\<open>example/pgx/guarded.go\<close>: a validator and an executor, and three
  operations that refuse query rewriters, validate, and only then delegate. Validator and
  executor are interface values of other code: their methods are actions. An argument is
  known by the one question the code asks about it, whether it is a \<open>pgx.QueryRewriter\<close>. The
  theory shows that no operation reaches the executor with SQL the validator did not accept.
\<close>

section \<open>Collaborators\<close>

record 'arg argument =
  isQueryRewriter :: bool
  arg_value :: 'arg

text \<open>\<open>sqlguard.Validator\<close> of \<^verbatim>\<open>validator.go\<close>.\<close>

record ('w, 's) Validator =
  validator_Validate :: "'w Context \<Rightarrow> string \<Rightarrow> ('s, error) eff"

datatype 'row guardedRow =
    DriverRow 'row
  | FailedRow error

record ('w, 's, 'arg, 'tag, 'rows, 'row) Executor =
  executor_Exec :: "'w Context \<Rightarrow> string \<Rightarrow> 'arg argument list \<Rightarrow> ('s, 'tag \<times> error) eff"
  executor_Query :: "'w Context \<Rightarrow> string \<Rightarrow> 'arg argument list \<Rightarrow> ('s, 'rows option \<times> error) eff"
  executor_QueryRow :: "'w Context \<Rightarrow> string \<Rightarrow> 'arg argument list \<Rightarrow> ('s, 'row guardedRow) eff"

record ('w, 's, 'arg, 'tag, 'rows, 'row) GuardedDB =
  db_validator :: "('w, 's) Validator iface"
  db_executor :: "('w, 's, 'arg, 'tag, 'rows, 'row) Executor iface"

section \<open>The code\<close>

definition pgx_errNilValidator :: goerror where
  "pgx_errNilValidator = Sentinel ''sqlguard pgx example: validator must not be nil''"

definition pgx_errNilExecutor :: goerror where
  "pgx_errNilExecutor = Sentinel ''sqlguard pgx example: executor must not be nil''"

definition ErrQueryRewriterUnsupported :: goerror where
  "ErrQueryRewriterUnsupported = Sentinel ''sqlguard pgx example: query rewriting is unsupported''"

fun containsQueryRewriter :: "'arg argument list \<Rightarrow> bool" where
  "containsQueryRewriter [] = False"
| "containsQueryRewriter (argument # rest) =
     (if isQueryRewriter argument then True else containsQueryRewriter rest)"

definition isNil :: "'a iface \<Rightarrow> bool" where
  "isNil value =
     (case value of
        None \<Rightarrow> True
      | Some reflected \<Rightarrow> if nilable_kind (dyn_kind reflected) then dyn_isNil reflected else False)"

definition NewGuardedDB ::
    "('w, 's) Validator iface \<Rightarrow> ('w, 's, 'arg, 'tag, 'rows, 'row) Executor iface \<Rightarrow>
     goerror + ('w, 's, 'arg, 'tag, 'rows, 'row) GuardedDB" where
  "NewGuardedDB validator executor =
     (if isNil validator then Inl pgx_errNilValidator
      else if isNil executor then Inl pgx_errNilExecutor
      else Inr \<lparr>db_validator = validator, db_executor = executor\<rparr>)"

text \<open>\<open>zeroTag\<close> is the zero value \<open>pgconn.CommandTag{}\<close>.\<close>

definition pgx_Exec ::
    "'tag \<Rightarrow> ('w, 's, 'arg, 'tag, 'rows, 'row) GuardedDB \<Rightarrow> 'w Context \<Rightarrow> string \<Rightarrow>
     'arg argument list \<Rightarrow> ('s, 'tag \<times> error) eff" where
  "pgx_Exec zeroTag db ctx sql arguments =
     (if containsQueryRewriter arguments then retE (zeroTag, Some ErrQueryRewriterUnsupported)
      else bindE (invoke (\<lambda>v. validator_Validate v ctx sql) (db_validator db)) (\<lambda>err.
        if err \<noteq> None then retE (zeroTag, err)
        else invoke (\<lambda>x. executor_Exec x ctx sql arguments) (db_executor db)))"

definition pgx_Query ::
    "('w, 's, 'arg, 'tag, 'rows, 'row) GuardedDB \<Rightarrow> 'w Context \<Rightarrow> string \<Rightarrow>
     'arg argument list \<Rightarrow> ('s, 'rows option \<times> error) eff" where
  "pgx_Query db ctx sql args =
     (if containsQueryRewriter args then retE (None, Some ErrQueryRewriterUnsupported)
      else bindE (invoke (\<lambda>v. validator_Validate v ctx sql) (db_validator db)) (\<lambda>err.
        if err \<noteq> None then retE (None, err)
        else invoke (\<lambda>x. executor_Query x ctx sql args) (db_executor db)))"

definition pgx_QueryRow ::
    "('w, 's, 'arg, 'tag, 'rows, 'row) GuardedDB \<Rightarrow> 'w Context \<Rightarrow> string \<Rightarrow>
     'arg argument list \<Rightarrow> ('s, 'row guardedRow) eff" where
  "pgx_QueryRow db ctx sql args =
     (if containsQueryRewriter args then retE (FailedRow (Some ErrQueryRewriterUnsupported))
      else bindE (invoke (\<lambda>v. validator_Validate v ctx sql) (db_validator db)) (\<lambda>err.
        if err \<noteq> None then retE (FailedRow err)
        else invoke (\<lambda>x. executor_QueryRow x ctx sql args) (db_executor db)))"

text \<open>\<open>Scan\<close> of the row a failed guard returns.\<close>

definition failedRow_Scan :: "error \<Rightarrow> 'dest list \<Rightarrow> error" where
  "failedRow_Scan err dest = err"

lemma containsQueryRewriter_iff: "containsQueryRewriter args \<longleftrightarrow> (\<exists>a \<in> set args. isQueryRewriter a)"
  by (induction args) auto

lemma isNil_iff: "isNil v \<longleftrightarrow> v = None \<or> isTypedNil v"
  by (auto simp: isNil_def isTypedNil_def split: option.splits)

section \<open>Guards\<close>

text \<open>The shape all guarded operations have, and that the three operations have it.\<close>

definition guardedCall ::
    "('w Context \<Rightarrow> string \<Rightarrow> ('s, error) eff) \<Rightarrow> (error \<Rightarrow> 'r) \<Rightarrow> goerror \<Rightarrow> ('s, 'r) eff \<Rightarrow>
     'w Context \<Rightarrow> string \<Rightarrow> 'arg argument list \<Rightarrow> ('s, 'r) eff" where
  "guardedCall validate refuse unsupported execute ctx sql args =
     (if containsQueryRewriter args then retE (refuse (Some unsupported))
      else bindE (validate ctx sql) (\<lambda>err. if err \<noteq> None then retE (refuse err) else execute))"

lemma pgx_operations:
  "pgx_Exec zeroTag db ctx sql args =
     guardedCall (\<lambda>ctx sql. invoke (\<lambda>v. validator_Validate v ctx sql) (db_validator db)) (Pair zeroTag)
       ErrQueryRewriterUnsupported (invoke (\<lambda>x. executor_Exec x ctx sql args) (db_executor db)) ctx sql args"
  "pgx_Query db ctx sql args =
     guardedCall (\<lambda>ctx sql. invoke (\<lambda>v. validator_Validate v ctx sql) (db_validator db)) (Pair None)
       ErrQueryRewriterUnsupported (invoke (\<lambda>x. executor_Query x ctx sql args) (db_executor db)) ctx sql args"
  "pgx_QueryRow db ctx sql args =
     guardedCall (\<lambda>ctx sql. invoke (\<lambda>v. validator_Validate v ctx sql) (db_validator db)) FailedRow
       ErrQueryRewriterUnsupported (invoke (\<lambda>x. executor_QueryRow x ctx sql args) (db_executor db)) ctx sql args"
  by (simp_all add: guardedCall_def pgx_Exec_def pgx_Query_def pgx_QueryRow_def)

definition guardedTrace :: "(string \<Rightarrow> call list \<Rightarrow> bool) \<Rightarrow> string \<Rightarrow> call list \<Rightarrow> call list \<Rightarrow> bool" where
  "guardedTrace clears sql before after =
     (\<exists>trace. after = before @ trace \<and>
        (driverCalls trace = [] \<or> (\<exists>pre. clears sql pre \<and> driverCalls pre = [] \<and> trace = pre @ [CallDriver sql])))"

text \<open>
  What a guarded operation relies on: validating sends nothing to the driver, and accepts SQL
  only after a trace that clears it. \<open>keeps\<close> is an invariant of the guard's own state.
\<close>

locale sql_guard =
  fixes validate :: "'w Context \<Rightarrow> string \<Rightarrow> ('s, error) eff"
    and trace_of :: "'s \<Rightarrow> call list"
    and cleared :: "string \<Rightarrow> call list \<Rightarrow> bool"
    and keeps :: "'s \<Rightarrow> bool"
  assumes validate_trace: "keeps s \<Longrightarrow> \<exists>trace. trace_of (snd (validate ctx sql s)) = trace_of s @ trace \<and>
      driverCalls trace = [] \<and> (fst (validate ctx sql s) = Ret None \<longrightarrow> cleared sql trace)"
    and validate_keeps: "keeps s \<Longrightarrow> keeps (snd (validate ctx sql s))"
begin

lemma guarded_operation:
  assumes "keeps s" and execute: "\<And>t. trace_of (snd (execute t)) = trace_of t @ [CallDriver sql]"
  shows "guardedTrace cleared sql (trace_of s)
     (trace_of (snd (guardedCall validate refuse unsupported execute ctx sql args s)))"
proof (cases "containsQueryRewriter args")
  case False
  obtain r t where run: "validate ctx sql s = (r, t)" by fastforce
  with validate_trace [OF assms(1), of ctx sql] obtain trace where
    trace: "trace_of t = trace_of s @ trace" "driverCalls trace = []"
      "r = Ret None \<longrightarrow> cleared sql trace" by auto
  show ?thesis
  proof (cases "r = Ret None")
    case True
    with False run trace execute [of t] show ?thesis
      by (auto simp: guardedTrace_def guardedCall_def bindE_apply)
  next
    case other: False
    with False run trace show ?thesis 
      by (cases r) (auto simp: guardedTrace_def guardedCall_def bindE_apply retE_apply)
  qed
qed (simp add: guardedTrace_def guardedCall_def retE_apply)

end

section \<open>The engine as the guard\<close>

definition engineValidator :: "backend \<Rightarrow> 'w Engine \<Rightarrow> ('w, ('w, call) sys) Validator iface" where
  "engineValidator b e =
     Some \<lparr>dyn_kind = Pointer, dyn_isNil = False, dyn_val = \<lparr>validator_Validate = Validate b e\<rparr>\<rparr>"

text \<open>SQL is cleared by a complete validation of that SQL.\<close>

definition engineCleared :: "backend \<Rightarrow> 'w Engine \<Rightarrow> string \<Rightarrow> call list \<Rightarrow> bool" where
  "engineCleared b e sql trace =
     (\<exists>r. Parse b sql = (Some r, None) \<and>
        trace = [CallCtxErr, CallParse sql, CallCtxErr] @ allowedTrace e (Some r))"

interpretation engine_guard: sql_guard "Validate b e" calls "engineCleared b e" "\<lambda>_. True" for b e
proof
  fix s ctx sql
  from undriven_engine(3) [of b e ctx sql] obtain trace where
    trace: "calls (snd (Validate b e ctx sql s)) = calls s @ trace" "driverCalls trace = []"
    by (auto simp: tracks_def undriven_def)
  have "engineCleared b e sql trace" if "fst (Validate b e ctx sql s) = Ret None"
  proof -
    from that obtain s' where "Validate b e ctx sql s = (Ret None, s')" by (rule outcomeE)
    with Validate_allowed [OF this] trace(1) show ?thesis by (auto simp: engineCleared_def)
  qed
  with trace show "\<exists>trace. calls (snd (Validate b e ctx sql s)) = calls s @ trace \<and> driverCalls trace = [] \<and>
      (fst (Validate b e ctx sql s) = Ret None \<longrightarrow> engineCleared b e sql trace)" by blast
qed simp

text \<open>A driver: every execution is one call, recorded with its SQL, and acts on the world.\<close>

definition driver ::
    "('w Context \<Rightarrow> string \<Rightarrow> 'arg argument list \<Rightarrow> ('w, 'tag \<times> error) act) \<Rightarrow>
     ('w Context \<Rightarrow> string \<Rightarrow> 'arg argument list \<Rightarrow> ('w, 'rows option \<times> error) act) \<Rightarrow>
     ('w Context \<Rightarrow> string \<Rightarrow> 'arg argument list \<Rightarrow> ('w, 'row guardedRow) act) \<Rightarrow>
     ('w, ('w, call) sys, 'arg, 'tag, 'rows, 'row) Executor iface" where
  "driver exec query queryRow =
     Some \<lparr>dyn_kind = Pointer, dyn_isNil = False, dyn_val =
       \<lparr>executor_Exec = (\<lambda>ctx sql args. extcall (CallDriver sql) (exec ctx sql args)),
        executor_Query = (\<lambda>ctx sql args. extcall (CallDriver sql) (query ctx sql args)),
        executor_QueryRow = (\<lambda>ctx sql args. extcall (CallDriver sql) (queryRow ctx sql args))\<rparr>\<rparr>"

lemma invoke_collaborators [simp]:
  "invoke (\<lambda>v. validator_Validate v ctx sql) (engineValidator b e) = Validate b e ctx sql"
  "invoke (\<lambda>x. executor_Exec x ctx sql args) (driver exec query queryRow) =
     extcall (CallDriver sql) (exec ctx sql args)"
  "invoke (\<lambda>x. executor_Query x ctx sql args) (driver exec query queryRow) =
     extcall (CallDriver sql) (query ctx sql args)"
  "invoke (\<lambda>x. executor_QueryRow x ctx sql args) (driver exec query queryRow) =
     extcall (CallDriver sql) (queryRow ctx sql args)"
  by (simp_all add: engineValidator_def driver_def invoke_def)

section \<open>Properties\<close>

text \<open>
  C29: the pgx example is a guard. Whatever engine, context, driver and arguments, each of the
  three operations sends nothing to the driver or sends exactly the given SQL, once, as its
  last call and right after a complete validation that parsed that SQL, evaluated every rule
  on every statement of it and returned nil.
\<close>

theorem pgx_drives_only_allowed:
  "guardedTrace (engineCleared b e) sql (calls s) (calls (snd (pgx_Exec zeroTag
      \<lparr>db_validator = engineValidator b e, db_executor = driver exec query queryRow\<rparr> ctx sql args s))) \<and>
   guardedTrace (engineCleared b e) sql (calls s) (calls (snd (pgx_Query
      \<lparr>db_validator = engineValidator b e, db_executor = driver exec query queryRow\<rparr> ctx sql args s))) \<and>
   guardedTrace (engineCleared b e) sql (calls s) (calls (snd (pgx_QueryRow
      \<lparr>db_validator = engineValidator b e, db_executor = driver exec query queryRow\<rparr> ctx sql args s)))"
  unfolding pgx_operations GuardedDB.simps invoke_collaborators
  by (intro conjI engine_guard.guarded_operation) simp_all



end
