(* ===== verification/Example_Prepared.thy ===== *)
theory Example_Prepared
  imports Example_Pgx
begin

text \<open>
  The guarded database with a cache of prepared values, \<^verbatim>\<open>example/pgx-prepared/guarded.go\<close>. The
  LRU cache is a third-party data structure: its operations are the parameter \<open>lru\<close>, and
  \<open>lru_laws\<close> names the part of its documented behaviour the example relies on, that a cache
  answers a key only with the value last added for it and may forget any key. The theory shows
  that the cache never changes a decision, that it holds only parse results of the very SQL
  that is its key, and that the driver sees validated SQL only.
\<close>

section \<open>Collaborators\<close>

text \<open>
  \<open>lru.New\<close>, \<open>Get\<close> (which moves the entry to the front) and \<open>Add\<close>, and the entries a cache
  holds at a moment.
\<close>

record 'c lru =
  lru_New :: "int \<Rightarrow> goerror + 'c"
  lru_Get :: "'c \<Rightarrow> string \<Rightarrow> Prepared option \<times> 'c"
  lru_Add :: "'c \<Rightarrow> string \<Rightarrow> Prepared \<Rightarrow> 'c"
  lru_entries :: "'c \<Rightarrow> string \<rightharpoonup> Prepared"

definition lru_laws :: "'c lru \<Rightarrow> bool" where
  "lru_laws L =
     ((\<forall>n c. lru_New L n = Inr c \<longrightarrow> lru_entries L c = Map.empty) \<and>
      (\<forall>c k. fst (lru_Get L c k) = lru_entries L c k \<and> lru_entries L (snd (lru_Get L c k)) \<subseteq>\<^sub>m lru_entries L c) \<and>
      (\<forall>c k v. lru_entries L (lru_Add L c k v) \<subseteq>\<^sub>m (lru_entries L c)(k \<mapsto> v)))"

record ('w, 's) PreparedValidator =
  validator_Prepare :: "'w Context \<Rightarrow> string \<Rightarrow> ('s, Prepared \<times> error) eff"
  validator_ValidatePrepared :: "'w Context \<Rightarrow> Prepared \<Rightarrow> ('s, error) eff"

text \<open>The example declares the executor interface and the failed row of the pgx example once more.\<close>

type_synonym ('w, 's, 'arg, 'tag, 'rows, 'row) prepared_Executor = "('w, 's, 'arg, 'tag, 'rows, 'row) Executor"

type_synonym 'row prepared_row = "'row guardedRow"

record CacheOptions =
  Capacity :: int
  MaxSQLBytes :: int

text \<open>
  The cache is behind a pointer the database owns: its content is part of the state, next to
  the state of the collaborators.
\<close>

record ('s, 'c) cached =
  base :: 's
  cache :: 'c

record ('w, 's, 'arg, 'tag, 'rows, 'row) PreparedDB =
  pdb_validator :: "('w, 's) PreparedValidator iface"
  pdb_executor :: "('w, 's, 'arg, 'tag, 'rows, 'row) prepared_Executor iface"
  pdb_maxSQLBytes :: int

section \<open>The code\<close>

definition prepared_errNilValidator :: goerror where
  "prepared_errNilValidator = Sentinel ''sqlguard pgx-prepared example: validator must not be nil''"

definition prepared_errNilExecutor :: goerror where
  "prepared_errNilExecutor = Sentinel ''sqlguard pgx-prepared example: executor must not be nil''"

definition errInvalidCapacity :: goerror where
  "errInvalidCapacity = Sentinel ''sqlguard pgx-prepared example: cache capacity must be positive''"

definition errInvalidMaxSQLBytes :: goerror where
  "errInvalidMaxSQLBytes = Sentinel ''sqlguard pgx-prepared example: maximum SQL bytes must be positive''"

definition prepared_ErrQueryRewriterUnsupported :: goerror where
  "prepared_ErrQueryRewriterUnsupported =
     Sentinel ''sqlguard pgx-prepared example: query rewriting is unsupported''"

text \<open>The example has its own copies of three helpers of the pgx example.\<close>

fun prepared_containsQueryRewriter :: "'arg argument list \<Rightarrow> bool" where
  "prepared_containsQueryRewriter [] = False"
| "prepared_containsQueryRewriter (argument # rest) =
     (if isQueryRewriter argument then True else prepared_containsQueryRewriter rest)"

definition prepared_isNil :: "'a iface \<Rightarrow> bool" where
  "prepared_isNil value =
     (case value of
        None \<Rightarrow> True
      | Some reflected \<Rightarrow> if nilable_kind (dyn_kind reflected) then dyn_isNil reflected else False)"

definition prepared_failedRow_Scan :: "error \<Rightarrow> 'dest list \<Rightarrow> error" where
  "prepared_failedRow_Scan err dest = err"

lemma prepared_copies:
  "prepared_containsQueryRewriter args = containsQueryRewriter args"
  "prepared_isNil v = isNil v"
  "prepared_failedRow_Scan err dest = failedRow_Scan err dest"
  by (induction args) (simp_all add: prepared_isNil_def isNil_def prepared_failedRow_Scan_def failedRow_Scan_def)

text \<open>The new database and its new cache.\<close>

definition prepared_NewGuardedDB ::
    "'c lru \<Rightarrow> ('w, 's) PreparedValidator iface \<Rightarrow> ('w, 's, 'arg, 'tag, 'rows, 'row) Executor iface \<Rightarrow>
     CacheOptions \<Rightarrow> goerror + (('w, 's, 'arg, 'tag, 'rows, 'row) PreparedDB \<times> 'c)" where
  "prepared_NewGuardedDB L validator executor options =
     (if prepared_isNil validator then Inl prepared_errNilValidator
      else if prepared_isNil executor then Inl prepared_errNilExecutor
      else if Capacity options \<le> 0 then Inl errInvalidCapacity
      else if MaxSQLBytes options \<le> 0 then Inl errInvalidMaxSQLBytes
      else case lru_New L (Capacity options) of
             Inl err \<Rightarrow> Inl errInvalidCapacity
           | Inr c \<Rightarrow> Inr (\<lparr>pdb_validator = validator, pdb_executor = executor,
                            pdb_maxSQLBytes = MaxSQLBytes options\<rparr>, c))"

definition isCacheableValidationOutcome :: "error \<Rightarrow> bool" where
  "isCacheableValidationOutcome err =
     (case err of None \<Rightarrow> True | Some e \<Rightarrow> errors_As as_Violation e \<noteq> None)"

text \<open>An effect of the collaborators, and the two effects on the cache.\<close>

definition onBase :: "('s, 'a) eff \<Rightarrow> (('s, 'c) cached, 'a) eff" where
  "onBase m = (\<lambda>s. case m (base s) of (r, t) \<Rightarrow> (r, s\<lparr>base := t\<rparr>))"

definition cacheGet :: "'c lru \<Rightarrow> string \<Rightarrow> (('s, 'c) cached, Prepared option) eff" where
  "cacheGet L key = (\<lambda>s. case lru_Get L (cache s) key of (v, c) \<Rightarrow> (Ret v, s\<lparr>cache := c\<rparr>))"

definition cacheAdd :: "'c lru \<Rightarrow> string \<Rightarrow> Prepared \<Rightarrow> (('s, 'c) cached, unit) eff" where
  "cacheAdd L key v = (\<lambda>s. (Ret (), s\<lparr>cache := lru_Add L (cache s) key v\<rparr>))"

definition prepared_validate ::
    "'c lru \<Rightarrow> ('w, 's, 'arg, 'tag, 'rows, 'row) PreparedDB \<Rightarrow> 'w Context \<Rightarrow> string \<Rightarrow>
     (('s, 'c) cached, error) eff" where
  "prepared_validate L db ctx sql =
     bindE (cacheGet L sql) (\<lambda>hit.
       case hit of
         Some prepared \<Rightarrow>
           onBase (invoke (\<lambda>v. validator_ValidatePrepared v ctx prepared) (pdb_validator db))
       | None \<Rightarrow>
           bindE (onBase (invoke (\<lambda>v. validator_Prepare v ctx sql) (pdb_validator db))) (\<lambda>(prepared, err).
             if err \<noteq> None then retE err
             else bindE (onBase (invoke (\<lambda>v. validator_ValidatePrepared v ctx prepared) (pdb_validator db)))
               (\<lambda>err.
                  bindE (if int (length sql) \<le> pdb_maxSQLBytes db \<and> isCacheableValidationOutcome err
                         then cacheAdd L sql prepared else retE ())
                    (\<lambda>_. retE err))))"

definition prepared_Exec ::
    "'c lru \<Rightarrow> 'tag \<Rightarrow> ('w, 's, 'arg, 'tag, 'rows, 'row) PreparedDB \<Rightarrow> 'w Context \<Rightarrow> string \<Rightarrow>
     'arg argument list \<Rightarrow> (('s, 'c) cached, 'tag \<times> error) eff" where
  "prepared_Exec L zeroTag db ctx sql arguments =
     (if prepared_containsQueryRewriter arguments then retE (zeroTag, Some prepared_ErrQueryRewriterUnsupported)
      else bindE (prepared_validate L db ctx sql) (\<lambda>err.
        if err \<noteq> None then retE (zeroTag, err)
        else onBase (invoke (\<lambda>x. executor_Exec x ctx sql arguments) (pdb_executor db))))"

definition prepared_Query ::
    "'c lru \<Rightarrow> ('w, 's, 'arg, 'tag, 'rows, 'row) PreparedDB \<Rightarrow> 'w Context \<Rightarrow> string \<Rightarrow>
     'arg argument list \<Rightarrow> (('s, 'c) cached, 'rows option \<times> error) eff" where
  "prepared_Query L db ctx sql args =
     (if prepared_containsQueryRewriter args then retE (None, Some prepared_ErrQueryRewriterUnsupported)
      else bindE (prepared_validate L db ctx sql) (\<lambda>err.
        if err \<noteq> None then retE (None, err)
        else onBase (invoke (\<lambda>x. executor_Query x ctx sql args) (pdb_executor db))))"

definition prepared_QueryRow ::
    "'c lru \<Rightarrow> ('w, 's, 'arg, 'tag, 'rows, 'row) PreparedDB \<Rightarrow> 'w Context \<Rightarrow> string \<Rightarrow>
     'arg argument list \<Rightarrow> (('s, 'c) cached, 'row prepared_row) eff" where
  "prepared_QueryRow L db ctx sql args =
     (if prepared_containsQueryRewriter args then retE (FailedRow (Some prepared_ErrQueryRewriterUnsupported))
      else bindE (prepared_validate L db ctx sql) (\<lambda>err.
        if err \<noteq> None then retE (FailedRow err)
        else onBase (invoke (\<lambda>x. executor_QueryRow x ctx sql args) (pdb_executor db))))"

section \<open>Coherence of the cache\<close>

definition enginePrepared :: "backend \<Rightarrow> 'w Engine \<Rightarrow> ('w, ('w, call) sys) PreparedValidator iface" where
  "enginePrepared b e =
     Some \<lparr>dyn_kind = Pointer, dyn_isNil = False,
       dyn_val = \<lparr>validator_Prepare = Prepare b e, validator_ValidatePrepared = ValidatePrepared e\<rparr>\<rparr>"

lemma invoke_enginePrepared [simp]:
  "invoke (\<lambda>v. validator_Prepare v ctx sql) (enginePrepared b e) = Prepare b e ctx sql"
  "invoke (\<lambda>v. validator_ValidatePrepared v ctx p) (enginePrepared b e) = ValidatePrepared e ctx p"
  by (simp_all add: enginePrepared_def invoke_def)

text \<open>Every entry is the parse result of its key, and no key is longer than the limit.\<close>

definition coherent :: "'c lru \<Rightarrow> backend \<Rightarrow> int \<Rightarrow> 'c \<Rightarrow> bool" where
  "coherent L b limit c =
     (\<forall>sql p. lru_entries L c sql = Some p \<longrightarrow>
        Parse b sql = (prepared_result p, None) \<and> int (length sql) \<le> limit)"

lemma coherent_mono: "coherent L b limit c \<Longrightarrow> lru_entries L c' \<subseteq>\<^sub>m lru_entries L c \<Longrightarrow> coherent L b limit c'"
  unfolding coherent_def map_le_def by (metis domI)

lemma coherent_add:
  assumes "lru_laws L" and "coherent L b limit c"
    and "Parse b sql = (prepared_result p, None)" and "int (length sql) \<le> limit"
  shows "coherent L b limit (lru_Add L c sql p)"
proof -
  have "lru_entries L (lru_Add L c sql p) \<subseteq>\<^sub>m (lru_entries L c)(sql \<mapsto> p)"
    using assms(1) by (simp add: lru_laws_def)
  then have "lru_entries L (lru_Add L c sql p) k = Some q \<Longrightarrow> ((lru_entries L c)(sql \<mapsto> p)) k = Some q" for k q
    by (metis domI map_le_def)
  with assms show ?thesis unfolding coherent_def by (metis fun_upd_apply option.inject)
qed

lemma cacheGet_cases:
  assumes "lru_laws L" and "coherent L b limit (cache s)"
  obtains c where "cacheGet L sql s = (Ret (lru_entries L (cache s) sql), s\<lparr>cache := c\<rparr>)"
    and "coherent L b limit c"
proof -
  obtain v c where get: "lru_Get L (cache s) sql = (v, c)" by fastforce
  with assms(1) have "v = lru_entries L (cache s) sql" and "lru_entries L c \<subseteq>\<^sub>m lru_entries L (cache s)"
    by (auto simp: lru_laws_def) (metis fst_conv, metis snd_conv)
  with that get coherent_mono [OF assms(2)] show thesis by (simp add: cacheGet_def)
qed

lemma onBase_apply: "m (base s) = (r, t) \<Longrightarrow> onBase m s = (r, s\<lparr>base := t\<rparr>)"
  by (simp add: onBase_def)

lemma Prepare_parsed:
  assumes "Prepare b e ctx sql s = (Ret (p, None), t)"
  shows "Parse b sql = (prepared_result p, None)"
    and "calls t = calls s @ [CallCtxErr, CallParse sql, CallCtxErr]"
  using Prepare_run [OF assms] by (auto elim: prepare_run_parsed)

text \<open>SQL is cleared by validating its parse result, freshly parsed or from the cache.\<close>

definition preparedCleared :: "backend \<Rightarrow> 'w Engine \<Rightarrow> string \<Rightarrow> call list \<Rightarrow> bool" where
  "preparedCleared b e sql trace =
     (\<exists>r. Parse b sql = (Some r, None) \<and>
        trace \<in> {allowedTrace e (Some r), [CallCtxErr, CallParse sql, CallCtxErr] @ allowedTrace e (Some r)})"

text \<open>What one validation through the cache does, given a coherent cache.\<close>

definition validatesWith ::
    "'c lru \<Rightarrow> backend \<Rightarrow> 'w Engine \<Rightarrow> int \<Rightarrow> string \<Rightarrow> (('w, call) sys, 'c) cached \<Rightarrow>
     error outcome \<times> (('w, call) sys, 'c) cached \<Rightarrow> bool" where
  "validatesWith L b e limit sql s result =
     (coherent L b limit (cache (snd result)) \<and>
      (\<exists>trace. calls (base (snd result)) = calls (base s) @ trace \<and> driverCalls trace = [] \<and>
         (fst result = Ret None \<longrightarrow> preparedCleared b e sql trace)))"

lemma ValidatePrepared_step:
  assumes "Parse b sql = (prepared_result p, None)" and "ValidatePrepared e ctx p t = (r, u)"
    and "calls t = calls s @ pre" and "pre \<in> {[], [CallCtxErr, CallParse sql, CallCtxErr]}"
  shows "\<exists>trace. calls u = calls s @ trace \<and> driverCalls trace = [] \<and>
     (r = Ret None \<longrightarrow> preparedCleared b e sql trace)"
proof -
  from undriven_engine(2) [of e ctx p] assms(2) obtain trace where
    trace: "calls u = calls t @ trace" "driverCalls trace = []"
    by (fastforce simp: tracks_def undriven_def dest!: spec [of _ t])
  have "preparedCleared b e sql (pre @ trace)" if "r = Ret None"
    using ValidatePrepared_allowed [of e ctx p t u] that assms trace(1)
    by (auto simp: preparedCleared_def)
  with trace assms(3,4) show ?thesis by (intro exI [of _ "pre @ trace"]) auto
qed

lemma prepared_validate_hit:
  assumes "lru_laws L" and "pdb_validator db = enginePrepared b e"
    and "coherent L b (pdb_maxSQLBytes db) (cache s)" and hit: "lru_entries L (cache s) sql = Some p"
  shows "validatesWith L b e (pdb_maxSQLBytes db) sql s (prepared_validate L db ctx sql s)"
    and "fst (prepared_validate L db ctx sql s) = fst (ValidatePrepared e ctx p (base s))"
proof -
  obtain c where get: "cacheGet L sql s = (Ret (Some p), s\<lparr>cache := c\<rparr>)"
      and c: "coherent L b (pdb_maxSQLBytes db) c"
    using cacheGet_cases [OF assms(1,3), of sql] hit by metis
  obtain r u where run: "ValidatePrepared e ctx p (base s) = (r, u)" by fastforce
  have parse: "Parse b sql = (prepared_result p, None)" using assms(3) hit by (simp add: coherent_def)
  have result: "prepared_validate L db ctx sql s = (r, s\<lparr>cache := c, base := u\<rparr>)"
    using onBase_apply [of "ValidatePrepared e ctx p" "s\<lparr>cache := c\<rparr>"] run
    by (simp add: prepared_validate_def bindE_Ret [where m = "cacheGet L sql", OF get] assms(2))
  show "validatesWith L b e (pdb_maxSQLBytes db) sql s (prepared_validate L db ctx sql s)"
    using ValidatePrepared_step [OF parse run, of "base s" "[]"] c
    by (simp add: validatesWith_def result)
  show "fst (prepared_validate L db ctx sql s) = fst (ValidatePrepared e ctx p (base s))"
    by (simp add: result run)
qed

lemma prepared_validate_miss:
  assumes laws: "lru_laws L" and db: "pdb_validator db = enginePrepared b e"
    and coh: "coherent L b (pdb_maxSQLBytes db) (cache s)" and miss: "lru_entries L (cache s) sql = None"
  shows "validatesWith L b e (pdb_maxSQLBytes db) sql s (prepared_validate L db ctx sql s)"
    and "fst (prepared_validate L db ctx sql s) = fst (Validate b e ctx sql (base s))"
proof -
  obtain c where get: "cacheGet L sql s = (Ret None, s\<lparr>cache := c\<rparr>)"
      and c: "coherent L b (pdb_maxSQLBytes db) c"
    using cacheGet_cases [OF laws coh, of sql] miss by metis
  obtain r1 t where prep: "Prepare b e ctx sql (base s) = (r1, t)" by fastforce
  from undriven_engine(1) [of b e ctx sql] prep obtain pre where
    pre: "calls t = calls (base s) @ pre" "driverCalls pre = []"
    by (fastforce simp: tracks_def undriven_def dest!: spec [of _ "base s"])
  have first: "onBase (Prepare b e ctx sql) (s\<lparr>cache := c\<rparr>) = (r1, s\<lparr>cache := c, base := t\<rparr>)"
    using onBase_apply [of "Prepare b e ctx sql" "s\<lparr>cache := c\<rparr>"] prep by simp
  note unfold = prepared_validate_def get db
  have "validatesWith L b e (pdb_maxSQLBytes db) sql s (prepared_validate L db ctx sql s) \<and>
      fst (prepared_validate L db ctx sql s) = fst (Validate b e ctx sql (base s))"
  proof (cases r1)
    case (Panic m)
    with pre c show ?thesis
      by (auto simp: unfold bindE_apply first validatesWith_def Validate_def prep)
  next
    case (Ret x)
    obtain p err where x: "x = (p, err)" by fastforce
    show ?thesis
    proof (cases err)
      case (Some ce)
      with pre c Ret x show ?thesis
        by (auto simp: unfold bindE_apply first validatesWith_def Validate_def prep retE_apply)
    next
      case None
      with Ret x prep have prep': "Prepare b e ctx sql (base s) = (Ret (p, None), t)" by simp
      note parse = Prepare_parsed [OF prep']
      obtain r u where run: "ValidatePrepared e ctx p t = (r, u)" by fastforce
      have second: "onBase (ValidatePrepared e ctx p) (s\<lparr>cache := c, base := t\<rparr>) = (r, s\<lparr>cache := c, base := u\<rparr>)"
        using onBase_apply [of "ValidatePrepared e ctx p" "s\<lparr>cache := c, base := t\<rparr>"] run by simp
      have add: "coherent L b (pdb_maxSQLBytes db) (lru_Add L c sql p)"
        if "int (length sql) \<le> pdb_maxSQLBytes db"
        by (rule coherent_add [OF laws c parse(1) that])
      note trace = ValidatePrepared_step [OF parse(1) run parse(2)]
      show ?thesis
        using Ret x None trace c add
        by (cases r) (auto simp: unfold bindE_apply first second validatesWith_def Validate_def prep run
            retE_apply cacheAdd_def)
    qed
  qed
  then show "validatesWith L b e (pdb_maxSQLBytes db) sql s (prepared_validate L db ctx sql s)"
    and "fst (prepared_validate L db ctx sql s) = fst (Validate b e ctx sql (base s))" by blast+
qed

lemma prepared_validate_step:
  assumes "lru_laws L" and "pdb_validator db = enginePrepared b e"
    and "coherent L b (pdb_maxSQLBytes db) (cache s)"
  shows "validatesWith L b e (pdb_maxSQLBytes db) sql s (prepared_validate L db ctx sql s)"
  using prepared_validate_hit(1) [OF assms] prepared_validate_miss(1) [OF assms]
  by (cases "lru_entries L (cache s) sql") auto

text \<open>The cached validation is a guard, for every cache that keeps the laws.\<close>

lemma cached_guard:
  assumes "lru_laws L" and "pdb_validator db = enginePrepared b e"
  shows "sql_guard (prepared_validate L db) (\<lambda>s. calls (base s)) (preparedCleared b e)
     (\<lambda>s. coherent L b (pdb_maxSQLBytes db) (cache s))"
  using prepared_validate_step [OF assms] by unfold_locales (auto simp: validatesWith_def)

lemma prepared_operations:
  "prepared_Exec L zeroTag db ctx sql args =
     guardedCall (prepared_validate L db) (Pair zeroTag) prepared_ErrQueryRewriterUnsupported
       (onBase (invoke (\<lambda>x. executor_Exec x ctx sql args) (pdb_executor db))) ctx sql args"
  "prepared_Query L db ctx sql args =
     guardedCall (prepared_validate L db) (Pair None) prepared_ErrQueryRewriterUnsupported
       (onBase (invoke (\<lambda>x. executor_Query x ctx sql args) (pdb_executor db))) ctx sql args"
  "prepared_QueryRow L db ctx sql args =
     guardedCall (prepared_validate L db) FailedRow prepared_ErrQueryRewriterUnsupported
       (onBase (invoke (\<lambda>x. executor_QueryRow x ctx sql args) (pdb_executor db))) ctx sql args"
  by (simp_all add: guardedCall_def prepared_Exec_def prepared_Query_def prepared_QueryRow_def prepared_copies)

lemma onBase_driver: "calls (base (snd (onBase (extcall (CallDriver sql) f) s))) = calls (base s) @ [CallDriver sql]"
  by (simp add: onBase_def extcall_def split: prod.split)

section \<open>Reachable databases\<close>

text \<open>
  The states of a database from its construction on: any operation with any context, SQL and
  arguments, and between operations anything at all that happens to the collaborators.
\<close>

inductive db_reachable ::
    "'c lru \<Rightarrow> ('w, ('w, call) sys, 'arg, 'tag, 'rows, 'row) PreparedDB \<Rightarrow> (('w, call) sys, 'c) cached \<Rightarrow> bool"
  for L :: "'c lru" and db :: "('w, ('w, call) sys, 'arg, 'tag, 'rows, 'row) PreparedDB" where
  created: "prepared_NewGuardedDB L validator executor options = Inr (db, c) \<Longrightarrow>
     db_reachable L db \<lparr>base = t, cache = c\<rparr>"
| elsewhere: "db_reachable L db s \<Longrightarrow> db_reachable L db (s\<lparr>base := t\<rparr>)"
| exec: "db_reachable L db s \<Longrightarrow> db_reachable L db (snd (prepared_Exec L zeroTag db ctx sql args s))"
| query: "db_reachable L db s \<Longrightarrow> db_reachable L db (snd (prepared_Query L db ctx sql args s))"
| queryRow: "db_reachable L db s \<Longrightarrow> db_reachable L db (snd (prepared_QueryRow L db ctx sql args s))"

lemma onBase_cache [simp]: "cache (snd (onBase m s)) = cache s"
  by (simp add: onBase_def split: prod.split)

lemma guardedCall_cache:
  assumes "\<And>s. P (cache s) \<Longrightarrow> P (cache (snd (validate ctx sql s)))" and "P (cache s)"
  shows "P (cache (snd (guardedCall validate refuse unsupported (onBase execute) ctx sql args s)))"
  using assms(1) [OF assms(2)] assms(2)
  by (auto simp: guardedCall_def bindE_apply retE_apply split: prod.splits outcome.splits)

lemma prepared_validate_coherent:
  assumes "lru_laws L" and "pdb_validator db = enginePrepared b e"
    and "coherent L b (pdb_maxSQLBytes db) (cache s)"
  shows "coherent L b (pdb_maxSQLBytes db) (cache (snd (prepared_validate L db ctx sql s)))"
  using prepared_validate_step [OF assms] by (simp add: validatesWith_def)

lemma NewGuardedDB_cache:
  assumes "prepared_NewGuardedDB L validator executor options = Inr (db, c)"
  shows "\<exists>n. lru_New L n = Inr c"
  using assms by (auto simp: prepared_NewGuardedDB_def split: if_splits sum.splits)

lemma reachable_coherent:
  assumes "lru_laws L" and "pdb_validator db = enginePrepared b e" and "db_reachable L db s"
  shows "coherent L b (pdb_maxSQLBytes db) (cache s)"
  using assms(3)
proof induction
  case (created validator executor options c t)
  from NewGuardedDB_cache [OF created] assms(1) show ?case
    by (auto simp: lru_laws_def coherent_def)
qed (simp_all add: prepared_operations guardedCall_cache prepared_validate_coherent [OF assms(1,2)])

section \<open>An LRU list\<close>

text \<open>
  A cache that keeps its entries in a list, most recent first, and forgets the last one beyond
  its capacity: it satisfies the laws.
\<close>

definition listLRU :: "(nat \<times> (string \<times> Prepared) list) lru" where
  "listLRU =
     \<lparr>lru_New = (\<lambda>n. if n \<le> 0 then Inl (Foreign ''must provide a positive size'') else Inr (nat n, [])),
      lru_Get = (\<lambda>(n, xs) k. case map_of xs k of
          None \<Rightarrow> (None, (n, xs))
        | Some v \<Rightarrow> (Some v, (n, (k, v) # filter (\<lambda>(k', _). k' \<noteq> k) xs))),
      lru_Add = (\<lambda>(n, xs) k v. (n, take n ((k, v) # filter (\<lambda>(k', _). k' \<noteq> k) xs))),
      lru_entries = (\<lambda>(n, xs). map_of xs)\<rparr>"

lemma map_of_filter_key: "map_of (filter (\<lambda>(k', _). k' \<noteq> k) xs) = (map_of xs)(k := None)"
  by (induction xs) (auto simp: fun_eq_iff)

lemma map_of_take: "map_of (take n xs) \<subseteq>\<^sub>m map_of xs"
proof -
  have "map_of xs = map_of (drop n xs) ++ map_of (take n xs)"
    by (metis append_take_drop_id map_of_append)
  then show ?thesis by simp
qed

lemma listLRU_laws: "lru_laws listLRU"
proof -
  have "map_of (take n ((k, v) # filter (\<lambda>(k', _). k' \<noteq> k) xs)) \<subseteq>\<^sub>m (map_of xs)(k \<mapsto> v)"
    for n k v and xs :: "(string \<times> Prepared) list"
    using map_of_take [of n "(k, v) # filter (\<lambda>(k', _). k' \<noteq> k) xs"] by (simp add: map_of_filter_key)
  then show ?thesis
    by (auto simp: lru_laws_def listLRU_def map_of_filter_key map_le_def split: option.splits)
qed

section \<open>Properties\<close>

text \<open>
  In every reachable state of the caching database each cached value is the parse result
  of the SQL it is stored under, and that SQL is within the size limit, whatever the sequence
  of operations, contexts, rules, sinks and driver.
\<close>

lemma cache_stays_coherent:
  assumes "lru_laws L" and "pdb_validator db = enginePrepared b e" and "db_reachable L db s"
    and "lru_entries L (cache s) sql = Some p"
  shows "Parse b sql = (prepared_result p, None) \<and> int (length sql) \<le> pdb_maxSQLBytes db"
  using reachable_coherent [OF assms(1-3)] assms(4) by (simp add: coherent_def)

text \<open>
  The caching database is a guard like the plain one: in every reachable state, each of the
  three operations sends nothing to the driver or sends exactly the given SQL, once and last,
  right after validating the parse result of that SQL, freshly parsed or taken from the cache,
  with every rule evaluated on every statement and nil returned.
\<close>

lemma prepared_drives_only_allowed:
  assumes "lru_laws L" and "pdb_validator db = enginePrepared b e"
    and "pdb_executor db = driver exec query queryRow" and "db_reachable L db s"
  shows "guardedTrace (preparedCleared b e) sql (calls (base s))
       (calls (base (snd (prepared_Exec L zeroTag db ctx sql args s)))) \<and>
     guardedTrace (preparedCleared b e) sql (calls (base s))
       (calls (base (snd (prepared_Query L db ctx sql args s)))) \<and>
     guardedTrace (preparedCleared b e) sql (calls (base s))
       (calls (base (snd (prepared_QueryRow L db ctx sql args s))))"
  unfolding prepared_operations assms(3) invoke_collaborators
  by (intro conjI sql_guard.guarded_operation [OF cached_guard [OF assms(1,2)]])
     (use reachable_coherent [OF assms(1,2,4)] onBase_driver in auto)

text \<open>
  The cache changes no decision: for an engine of deterministic rules and an active
  context, validating through the cache in any reachable state gives the result that \<open>Validate\<close>
  gives without one.
\<close>

lemma cached_equals_fresh:
  assumes "lru_laws L" and "pdb_validator db = enginePrepared b e" and "db_reachable L db s"
    and "policy_engine e pol" and "active ctx"
  shows "fst (prepared_validate L db ctx sql s) = fst (Validate b e ctx sql s')"
proof -
  note coh = reachable_coherent [OF assms(1-3)]
  note decide = policy_engine.Validate_decides [OF assms(4,5), of b sql]
  show ?thesis
  proof (cases "lru_entries L (cache s) sql")
    case None
    with prepared_validate_miss(2) [OF assms(1,2) coh None] decide show ?thesis by simp
  next
    case (Some p)
    with coh have parse: "Parse b sql = (prepared_result p, None)" by (simp add: coherent_def)
    then obtain r where "prepared_result p = Some r" using Parse_cases [of b sql] by auto
    with prepared_validate_hit(2) [OF assms(1,2) coh Some] parse decide
      policy_engine.ValidatePrepared_decides [OF assms(4,5), of p "base s"]
    show ?thesis by simp
  qed
qed

end
