(* ===== verification/Example_Concurrent.thy ===== *)
theory Example_Concurrent
  imports Guard_Concurrent Example_Prepared
begin

text \<open>
  Concurrent use of the caching database. Goroutines that call \<open>Exec\<close>, \<open>Query\<close> and \<open>QueryRow\<close>
  of one database share its cache as well: another goroutine may look up, add or evict
  entries between any two calls of an operation. The LRU cache takes its own lock, so \<open>Get\<close>
  and \<open>Add\<close> are one step each. Run alone the threads simulate the operations of
  \<open>Example_Prepared\<close>; in a pool the cache stays coherent, and still nothing reaches the driver
  that the goroutine itself has not validated.
\<close>

section \<open>The shared world\<close>

text \<open>The world of the collaborators and, behind the pointer of the database, its cache.\<close>

record ('w, 'c) dbworld =
  outside :: 'w
  dbcache :: 'c

datatype dbcall =
    Made call
  | OnCache

definition madeCalls :: "dbcall list \<Rightarrow> call list" where
  "madeCalls tr = List.map_filter (\<lambda>l. case l of Made c \<Rightarrow> Some c | OnCache \<Rightarrow> None) tr"

lemma madeCalls_simps [simp]:
  "madeCalls [] = []" "madeCalls (xs @ ys) = madeCalls xs @ madeCalls ys"
  "madeCalls [Made c] = [c]" "madeCalls [OnCache] = []"
  by (simp_all add: madeCalls_def map_filter_def)

text \<open>A thread of the collaborators in this world, and the calls of the cache.\<close>

primrec outsideT :: "('w, 'a) routine \<Rightarrow> (('w, 'c) dbworld, dbcall, 'a) thread" where
  "outsideT (Done r) = Done r"
| "outsideT (Act l u k) = Act (Made l) (\<lambda>s. s\<lparr>outside := u (outside s)\<rparr>) (\<lambda>s. outsideT (k (outside s)))"
| "outsideT (Tick l t) = Tick (Made l) (outsideT t)"

definition cacheGetT :: "'c lru \<Rightarrow> string \<Rightarrow> (('w, 'c) dbworld, dbcall, Prepared option) thread" where
  "cacheGetT L key =
     extcallT OnCache (\<lambda>s. case lru_Get L (dbcache s) key of (v, c) \<Rightarrow> (Ret v, s\<lparr>dbcache := c\<rparr>))"

definition cacheAddT :: "'c lru \<Rightarrow> string \<Rightarrow> Prepared \<Rightarrow> (('w, 'c) dbworld, dbcall, unit) thread" where
  "cacheAddT L key v = extcallT OnCache (\<lambda>s. (Ret (), s\<lparr>dbcache := lru_Add L (dbcache s) key v\<rparr>))"

section \<open>The operations as threads\<close>

text \<open>The interfaces of the example, with methods that give way to other goroutines.\<close>

record 'w validatorT =
  validatorT_Prepare :: "'w Context \<Rightarrow> string \<Rightarrow> ('w, Prepared \<times> error) routine"
  validatorT_ValidatePrepared :: "'w Context \<Rightarrow> Prepared \<Rightarrow> ('w, error) routine"

record ('w, 'arg, 'tag, 'rows, 'row) executorT =
  executorT_Exec :: "'w Context \<Rightarrow> string \<Rightarrow> 'arg argument list \<Rightarrow> ('w, 'tag \<times> error) routine"
  executorT_Query :: "'w Context \<Rightarrow> string \<Rightarrow> 'arg argument list \<Rightarrow> ('w, 'rows option \<times> error) routine"
  executorT_QueryRow :: "'w Context \<Rightarrow> string \<Rightarrow> 'arg argument list \<Rightarrow> ('w, 'row guardedRow) routine"

record ('w, 'arg, 'tag, 'rows, 'row) dbT =
  dbT_validator :: "'w validatorT iface"
  dbT_executor :: "('w, 'arg, 'tag, 'rows, 'row) executorT iface"
  dbT_maxSQLBytes :: int

definition invokeT :: "('a \<Rightarrow> ('w, 'b) routine) \<Rightarrow> 'a iface \<Rightarrow> (('w, 'c) dbworld, dbcall, 'b) thread" where
  "invokeT m receiver =
     (case receiver of None \<Rightarrow> Done (Panic nilDereference) | Some d \<Rightarrow> outsideT (m (dyn_val d)))"

definition prepared_validateT ::
    "'c lru \<Rightarrow> ('w, 'arg, 'tag, 'rows, 'row) dbT \<Rightarrow> 'w Context \<Rightarrow> string \<Rightarrow>
     (('w, 'c) dbworld, dbcall, error) thread" where
  "prepared_validateT L db ctx sql =
     bindT (cacheGetT L sql) (\<lambda>hit.
       case hit of
         Some prepared \<Rightarrow> invokeT (\<lambda>v. validatorT_ValidatePrepared v ctx prepared) (dbT_validator db)
       | None \<Rightarrow>
           bindT (invokeT (\<lambda>v. validatorT_Prepare v ctx sql) (dbT_validator db)) (\<lambda>(prepared, err).
             if err \<noteq> None then retT err
             else bindT (invokeT (\<lambda>v. validatorT_ValidatePrepared v ctx prepared) (dbT_validator db)) (\<lambda>err.
               bindT (if int (length sql) \<le> dbT_maxSQLBytes db \<and> isCacheableValidationOutcome err
                      then cacheAddT L sql prepared else retT ())
                 (\<lambda>_. retT err))))"

definition prepared_ExecT ::
    "'c lru \<Rightarrow> 'tag \<Rightarrow> ('w, 'arg, 'tag, 'rows, 'row) dbT \<Rightarrow> 'w Context \<Rightarrow> string \<Rightarrow>
     'arg argument list \<Rightarrow> (('w, 'c) dbworld, dbcall, 'tag \<times> error) thread" where
  "prepared_ExecT L zeroTag db ctx sql arguments =
     (if prepared_containsQueryRewriter arguments then retT (zeroTag, Some prepared_ErrQueryRewriterUnsupported)
      else bindT (prepared_validateT L db ctx sql) (\<lambda>err.
        if err \<noteq> None then retT (zeroTag, err)
        else invokeT (\<lambda>x. executorT_Exec x ctx sql arguments) (dbT_executor db)))"

definition prepared_QueryT ::
    "'c lru \<Rightarrow> ('w, 'arg, 'tag, 'rows, 'row) dbT \<Rightarrow> 'w Context \<Rightarrow> string \<Rightarrow>
     'arg argument list \<Rightarrow> (('w, 'c) dbworld, dbcall, 'rows option \<times> error) thread" where
  "prepared_QueryT L db ctx sql args =
     (if prepared_containsQueryRewriter args then retT (None, Some prepared_ErrQueryRewriterUnsupported)
      else bindT (prepared_validateT L db ctx sql) (\<lambda>err.
        if err \<noteq> None then retT (None, err)
        else invokeT (\<lambda>x. executorT_Query x ctx sql args) (dbT_executor db)))"

definition prepared_QueryRowT ::
    "'c lru \<Rightarrow> ('w, 'arg, 'tag, 'rows, 'row) dbT \<Rightarrow> 'w Context \<Rightarrow> string \<Rightarrow>
     'arg argument list \<Rightarrow> (('w, 'c) dbworld, dbcall, 'row guardedRow) thread" where
  "prepared_QueryRowT L db ctx sql args =
     (if prepared_containsQueryRewriter args then retT (FailedRow (Some prepared_ErrQueryRewriterUnsupported))
      else bindT (prepared_validateT L db ctx sql) (\<lambda>err.
        if err \<noteq> None then retT (FailedRow err)
        else invokeT (\<lambda>x. executorT_QueryRow x ctx sql args) (dbT_executor db)))"

section \<open>Run alone\<close>

text \<open>The collaborators and the state of the sequential model, and the simulation.\<close>

definition aloneValidator :: "'w validatorT iface \<Rightarrow> ('w, ('w, call) sys) PreparedValidator iface" where
  "aloneValidator = map_option (\<lambda>d. \<lparr>dyn_kind = dyn_kind d, dyn_isNil = dyn_isNil d, dyn_val =
     \<lparr>validator_Prepare = (\<lambda>ctx sql. runT (validatorT_Prepare (dyn_val d) ctx sql)),
      validator_ValidatePrepared = (\<lambda>ctx p. runT (validatorT_ValidatePrepared (dyn_val d) ctx p))\<rparr>\<rparr>)"

definition aloneExecutor ::
    "('w, 'arg, 'tag, 'rows, 'row) executorT iface \<Rightarrow> ('w, ('w, call) sys, 'arg, 'tag, 'rows, 'row) Executor iface" where
  "aloneExecutor = map_option (\<lambda>d. \<lparr>dyn_kind = dyn_kind d, dyn_isNil = dyn_isNil d, dyn_val =
     \<lparr>executor_Exec = (\<lambda>ctx sql args. runT (executorT_Exec (dyn_val d) ctx sql args)),
      executor_Query = (\<lambda>ctx sql args. runT (executorT_Query (dyn_val d) ctx sql args)),
      executor_QueryRow = (\<lambda>ctx sql args. runT (executorT_QueryRow (dyn_val d) ctx sql args))\<rparr>\<rparr>)"

definition aloneDB ::
    "('w, 'arg, 'tag, 'rows, 'row) dbT \<Rightarrow> ('w, ('w, call) sys, 'arg, 'tag, 'rows, 'row) PreparedDB" where
  "aloneDB db =
     \<lparr>pdb_validator = aloneValidator (dbT_validator db), pdb_executor = aloneExecutor (dbT_executor db),
      pdb_maxSQLBytes = dbT_maxSQLBytes db\<rparr>"

definition aloneState :: "(('w, 'c) dbworld, dbcall) sys \<Rightarrow> (('w, call) sys, 'c) cached" where
  "aloneState s =
     \<lparr>base = \<lparr>world = outside (world s), calls = madeCalls (calls s)\<rparr>, cache = dbcache (world s)\<rparr>"

definition simulates ::
    "(('w, 'c) dbworld, dbcall, 'a) thread \<Rightarrow> ((('w, call) sys, 'c) cached, 'a) eff \<Rightarrow> bool" where
  "simulates t m = (\<forall>s. map_prod id aloneState (runT t s) = m (aloneState s))"

lemma simulates_retT: "simulates (retT x) (retE x)"
  by (simp add: simulates_def retE_apply)

lemma simulates_bindT:
  assumes "simulates t m" and "\<And>x. simulates (f x) (g x)"
  shows "simulates (bindT t f) (bindE m g)"
  unfolding simulates_def
proof
  fix s
  obtain r u where run: "runT t s = (r, u)" by fastforce
  with assms(1) have m: "m (aloneState s) = (r, aloneState u)" by (metis id_apply map_prod_simp simulates_def)
  from run m assms(2) show "map_prod id aloneState (runT (bindT t f) s) = bindE m g (aloneState s)"
    by (cases r) (auto simp: bindE_apply simulates_def)
qed

lemma simulates_outsideT: "simulates (outsideT t) (onBase (runT t))"
  unfolding simulates_def
proof
  fix s
  show "map_prod id aloneState (runT (outsideT t) s) = onBase (runT t) (aloneState s)"
    by (induction t arbitrary: s) (simp_all add: onBase_def aloneState_def split: prod.split)
qed

lemma simulates_cache:
  "simulates (cacheGetT L key) (cacheGet L key)" "simulates (cacheAddT L key v) (cacheAdd L key v)"
  by (simp_all add: simulates_def cacheGetT_def cacheAddT_def cacheGet_def cacheAdd_def extcall_def aloneState_def
      split: prod.split)

lemma simulates_invokeT:
  "simulates (invokeT (\<lambda>v. validatorT_Prepare v ctx sql) validator)
     (onBase (invoke (\<lambda>v. validator_Prepare v ctx sql) (aloneValidator validator)))"
  "simulates (invokeT (\<lambda>v. validatorT_ValidatePrepared v ctx p) validator)
     (onBase (invoke (\<lambda>v. validator_ValidatePrepared v ctx p) (aloneValidator validator)))"
  "simulates (invokeT (\<lambda>x. executorT_Exec x ctx sql args) executor)
     (onBase (invoke (\<lambda>x. executor_Exec x ctx sql args) (aloneExecutor executor)))"
  "simulates (invokeT (\<lambda>x. executorT_Query x ctx sql args) executor)
     (onBase (invoke (\<lambda>x. executor_Query x ctx sql args) (aloneExecutor executor)))"
  "simulates (invokeT (\<lambda>x. executorT_QueryRow x ctx sql args) executor)
     (onBase (invoke (\<lambda>x. executor_QueryRow x ctx sql args) (aloneExecutor executor)))"
  by (cases validator; cases executor; simp add: invokeT_def invoke_def aloneValidator_def aloneExecutor_def
      simulates_outsideT; simp add: simulates_def onBase_def panicE_apply)+

lemmas simulation = simulates_bindT simulates_retT simulates_cache simulates_invokeT

lemma simulates_validate: "simulates (prepared_validateT L db ctx sql) (prepared_validate L (aloneDB db) ctx sql)"
  unfolding prepared_validateT_def prepared_validate_def aloneDB_def
  by (auto intro!: simulation split: option.split)

lemma aloneDB_sel: "pdb_validator (aloneDB db) = aloneValidator (dbT_validator db)"
  "pdb_executor (aloneDB db) = aloneExecutor (dbT_executor db)" "pdb_maxSQLBytes (aloneDB db) = dbT_maxSQLBytes db"
  by (simp_all add: aloneDB_def)

lemma simulates_operations:
  "simulates (prepared_ExecT L zeroTag db ctx sql args) (prepared_Exec L zeroTag (aloneDB db) ctx sql args)"
  "simulates (prepared_QueryT L db ctx sql args) (prepared_Query L (aloneDB db) ctx sql args)"
  "simulates (prepared_QueryRowT L db ctx sql args) (prepared_QueryRow L (aloneDB db) ctx sql args)"
  unfolding prepared_ExecT_def prepared_Exec_def prepared_QueryT_def prepared_Query_def
    prepared_QueryRowT_def prepared_QueryRow_def
  using simulates_invokeT(3-5) [where executor = "dbT_executor db"]
  by (auto intro!: simulates_bindT simulates_retT simulates_validate simp: aloneDB_sel)

section \<open>The guard under interference\<close>

text \<open>What a thread of the collaborators upholds, it upholds next to a cache it does not touch.\<close>

lemma upholds_outsideT:
  assumes "upholds (\<lambda>_. True) Q t (madeCalls tr)" and "\<And>s w. I s \<Longrightarrow> I (s\<lparr>outside := w\<rparr>)"
  shows "upholds I (\<lambda>tr r. Q (madeCalls tr) r) (outsideT t) tr"
  using assms(1) by (induction t arbitrary: tr) (auto intro: assms(2))

definition enginePreparedT :: "backend \<Rightarrow> 'w Engine \<Rightarrow> 'w validatorT iface" where
  "enginePreparedT b e =
     Some \<lparr>dyn_kind = Pointer, dyn_isNil = False,
       dyn_val = \<lparr>validatorT_Prepare = PrepareT b e, validatorT_ValidatePrepared = ValidatePreparedT e\<rparr>\<rparr>"

lemma alone_engine: "aloneValidator (enginePreparedT b e) = enginePrepared b e"
  by (simp add: aloneValidator_def enginePreparedT_def enginePrepared_def runT_PrepareT runT_ValidatePreparedT fun_eq_iff)

lemma foreseen_allowedTrace [simp]: "allowedTrace (foreseenEngine ctx e) r = allowedTrace e r"
proof -
  have "checkCalls (checks (foreseenEngine ctx e) roots) = checkCalls (checks e roots)" for roots
    by (induction roots) (simp_all add: checks_def statementChecks_def checkCalls_def comp_def case_prod_unfold)
  then show ?thesis by (simp add: allowedTrace_def)
qed

text \<open>The contracts of the two operations of the engine.\<close>

definition prepares :: "backend \<Rightarrow> 'w Context \<Rightarrow> string \<Rightarrow> call list \<Rightarrow> (Prepared \<times> error) outcome \<Rightarrow> bool" where
  "prepares b ctx sql tr r =
     (driverCalls tr = [] \<and>
      (\<forall>p. r = Ret (p, None) \<longrightarrow> Parse b sql = (prepared_result p, None) \<and> tr = [CallCtxErr, CallParse sql, CallCtxErr]) \<and>
      (active ctx \<longrightarrow> r = Ret (case Parse b sql of (result, None) \<Rightarrow> (\<lparr>prepared_result = result\<rparr>, None)
         | (result, Some err) \<Rightarrow> (zeroPrepared, translateParserError (Some err)))))"

definition validates :: "'w Engine \<Rightarrow> 'w Context \<Rightarrow> Prepared \<Rightarrow> call list \<Rightarrow> error outcome \<Rightarrow> bool" where
  "validates e ctx p tr r =
     (driverCalls tr = [] \<and>
      (r = Ret None \<longrightarrow> prepared_result p \<noteq> None \<and> tr = allowedTrace e (prepared_result p)) \<and>
      (\<forall>pol. deciding_engine e pol \<longrightarrow> active ctx \<longrightarrow>
         r = Ret (case prepared_result p of None \<Rightarrow> Some ErrInvalidPrepared | Some v \<Rightarrow> policyDecision pol (Some v))))"

lemma PrepareT_upholds: "upholds (\<lambda>_. True) (prepares b ctx sql) (PrepareT b e ctx sql) []"
proof (rule upholds_transfer)
  fix future :: "nat \<Rightarrow> 'a"
  let ?s = "\<lparr>world = future, calls = []\<rparr> :: (nat \<Rightarrow> 'a, call) sys" and ?e = "foreseenEngine ctx e" and ?ctx = "foreseenContext ctx"
  obtain r t where run: "Prepare b ?e ?ctx sql ?s = (r, t)" by fastforce
  have "driverCalls (calls t) = []"
    using tracks_from_start [OF undriven_engine(1), of b ?e ?ctx sql future] run by (simp add: undriven_def)
  moreover have "Parse b sql = (prepared_result p, None) \<and> calls t = [CallCtxErr, CallParse sql, CallCtxErr]"
    if "r = Ret (p, None)" for p
    using Prepare_parsed [of b ?e ?ctx sql ?s p t] run that by simp
  moreover have "r = Ret (case Parse b sql of (result, None) \<Rightarrow> (\<lparr>prepared_result = result\<rparr>, None)
         | (result, Some err) \<Rightarrow> (zeroPrepared, translateParserError (Some err)))" if "active ctx"
    using Prepare_active [OF foreseen_active [OF that], of b ?e sql ?s] run by auto
  ultimately show "prepares b ctx sql (calls (snd (runT (foreseenT (PrepareT b e ctx sql)) ?s)))
      (fst (runT (foreseenT (PrepareT b e ctx sql)) ?s))"
    by (simp add: foreseen_PrepareT runT_PrepareT run prepares_def)
qed

lemma ValidatePreparedT_upholds: "upholds (\<lambda>_. True) (validates e ctx p) (ValidatePreparedT e ctx p) []"
proof (rule upholds_transfer)
  fix future :: "nat \<Rightarrow> 'a"
  let ?s = "\<lparr>world = future, calls = []\<rparr> :: (nat \<Rightarrow> 'a, call) sys" and ?e = "foreseenEngine ctx e" and ?ctx = "foreseenContext ctx"
  obtain r t where run: "ValidatePrepared ?e ?ctx p ?s = (r, t)" by fastforce
  have "driverCalls (calls t) = []"
    using tracks_from_start [OF undriven_engine(2), of ?e ?ctx p future] run by (simp add: undriven_def)
  moreover have "prepared_result p \<noteq> None \<and> calls t = allowedTrace e (prepared_result p)" if "r = Ret None"
    using ValidatePrepared_allowed [of ?e ?ctx p ?s t] run that by simp
  moreover have "r = Ret (case prepared_result p of None \<Rightarrow> Some ErrInvalidPrepared | Some v \<Rightarrow> policyDecision pol (Some v))"
    if "deciding_engine e pol" "active ctx" for pol
    using deciding_engine.ValidatePrepared_decides [OF foreseen_decides [OF that(1)] foreseen_active [OF that(2)],
        of ctx p ?s] run by simp
  ultimately show "validates e ctx p (calls (snd (runT (foreseenT (ValidatePreparedT e ctx p)) ?s)))
      (fst (runT (foreseenT (ValidatePreparedT e ctx p)) ?s))"
    by (simp add: foreseen_ValidatePreparedT runT_ValidatePreparedT run validates_def)
qed

text \<open>In the shared world, from any point of the operation on.\<close>

lemma engineT_upholds:
  assumes "\<And>s w. I s \<Longrightarrow> I (s\<lparr>outside := w\<rparr>)"
  shows "upholds I (\<lambda>tr' r. \<exists>new. madeCalls tr' = madeCalls tr @ new \<and> prepares b ctx sql new r)
       (invokeT (\<lambda>v. validatorT_Prepare v ctx sql) (enginePreparedT b e)) tr"
    and "upholds I (\<lambda>tr' r. \<exists>new. madeCalls tr' = madeCalls tr @ new \<and> validates e ctx p new r)
       (invokeT (\<lambda>v. validatorT_ValidatePrepared v ctx p) (enginePreparedT b e)) tr"
proof -
  have lift: "upholds I (\<lambda>tr' r. \<exists>new. madeCalls tr' = madeCalls tr @ new \<and> Q new r) (outsideT t) tr"
    if "upholds (\<lambda>_. True) Q t []" for Q and t :: "('a, 'z) routine"
  proof -
    have "upholds (\<lambda>_. True) (\<lambda>tr' r. \<exists>new. tr' = madeCalls tr @ new \<and> Q new r) t (madeCalls tr)"
      using upholds_shift [of "\<lambda>_. True" "\<lambda>tr' r. \<exists>new. tr' = madeCalls tr @ new \<and> Q new r" "madeCalls tr" t "[]"]
        that by simp
    then show ?thesis by (rule upholds_outsideT) (rule assms)
  qed
  show "upholds I (\<lambda>tr' r. \<exists>new. madeCalls tr' = madeCalls tr @ new \<and> prepares b ctx sql new r)
       (invokeT (\<lambda>v. validatorT_Prepare v ctx sql) (enginePreparedT b e)) tr"
    using lift [OF PrepareT_upholds] by (simp add: invokeT_def enginePreparedT_def)
  show "upholds I (\<lambda>tr' r. \<exists>new. madeCalls tr' = madeCalls tr @ new \<and> validates e ctx p new r)
       (invokeT (\<lambda>v. validatorT_ValidatePrepared v ctx p) (enginePreparedT b e)) tr"
    using lift [OF ValidatePreparedT_upholds] by (simp add: invokeT_def enginePreparedT_def)
qed

section \<open>Validating through a shared cache\<close>

definition coherentWorld :: "'c lru \<Rightarrow> backend \<Rightarrow> int \<Rightarrow> ('w, 'c) dbworld \<Rightarrow> bool" where
  "coherentWorld L b limit s = coherent L b limit (dbcache s)"

lemma coherentWorld_outside [simp]: "coherentWorld L b limit (s\<lparr>outside := w\<rparr>) = coherentWorld L b limit s"
  by (simp add: coherentWorld_def)

lemma coherent_get:
  assumes "lru_laws L" and "coherent L b limit c"
  shows "coherent L b limit (snd (lru_Get L c sql))"
    and "fst (lru_Get L c sql) = Some p \<Longrightarrow> Parse b sql = (prepared_result p, None)"
  using assms coherent_mono [OF assms(2), of "snd (lru_Get L c sql)"] by (auto simp: lru_laws_def coherent_def)

text \<open>What a validation through the cache promises whatever happens to the cache meanwhile.\<close>

definition validatesSQL ::
    "backend \<Rightarrow> 'w Engine \<Rightarrow> 'w Context \<Rightarrow> string \<Rightarrow> call list \<Rightarrow> error outcome \<Rightarrow> bool" where
  "validatesSQL b e ctx sql tr r =
     (driverCalls tr = [] \<and> (r = Ret None \<longrightarrow> preparedCleared b e sql tr) \<and>
      (\<forall>pol. deciding_engine e pol \<longrightarrow> active ctx \<longrightarrow> r = Ret (requestDecision pol b (ValidateSQL e ctx sql))))"

lemma validates_hit:
  assumes "Parse b sql = (prepared_result p, None)" and "validates e ctx p tr r"
  shows "validatesSQL b e ctx sql tr r"
    and "validatesSQL b e ctx sql ([CallCtxErr, CallParse sql, CallCtxErr] @ tr) r"
  using assms Parse_cases [of b sql]
  by (auto simp: validates_def validatesSQL_def preparedCleared_def)

lemma prepares_fails:
  assumes "prepares b ctx sql tr (Ret (p, Some err))"
  shows "validatesSQL b e ctx sql tr (Ret (Some err))"
  using assms by (auto simp: prepares_def validatesSQL_def split: prod.splits option.splits)

lemma prepares_panics:
  assumes "prepares b ctx sql tr (Panic m)"
  shows "validatesSQL b e ctx sql tr (Panic m)"
  using assms by (auto simp: prepares_def validatesSQL_def)

lemma cacheAddT_upholds:
  assumes "lru_laws L" and "Parse b sql = (prepared_result p, None)" and "int (length sql) \<le> limit"
  shows "upholds (coherentWorld L b limit) (\<lambda>tr' r. r = Ret () \<and> madeCalls tr' = madeCalls tr) (cacheAddT L sql p) tr"
  using coherent_add [OF assms(1) _ assms(2,3)]
  by (simp add: cacheAddT_def extcallT_def coherentWorld_def)

lemma cacheGetT_upholds:
  assumes "lru_laws L"
  shows "upholds (coherentWorld L b limit)
     (\<lambda>tr r. \<exists>hit. r = Ret hit \<and> madeCalls tr = [] \<and> (\<forall>p. hit = Some p \<longrightarrow> Parse b sql = (prepared_result p, None)))
     (cacheGetT L sql) []"
  using coherent_get [OF assms, of b limit _ sql]
  by (auto simp: cacheGetT_def extcallT_def coherentWorld_def case_prod_unfold)

lemma missT_upholds:
  assumes "lru_laws L" and "dbT_validator db = enginePreparedT b e" and "prepares b ctx sql (madeCalls tr) (Ret (p, None))"
  shows "upholds (coherentWorld L b (dbT_maxSQLBytes db)) (\<lambda>tr r. validatesSQL b e ctx sql (madeCalls tr) r)
     (bindT (invokeT (\<lambda>v. validatorT_ValidatePrepared v ctx p) (dbT_validator db)) (\<lambda>err.
        bindT (if int (length sql) \<le> dbT_maxSQLBytes db \<and> isCacheableValidationOutcome err
               then cacheAddT L sql p else retT ()) (\<lambda>_. retT err))) tr"
proof -
  from assms(3) have parse: "Parse b sql = (prepared_result p, None)"
    and tr: "madeCalls tr = [CallCtxErr, CallParse sql, CallCtxErr]" by (simp_all add: prepares_def)
  have add: "upholds (coherentWorld L b (dbT_maxSQLBytes db)) (\<lambda>tr'' r. r = Ret () \<and> madeCalls tr'' = madeCalls tr')
      (if int (length sql) \<le> dbT_maxSQLBytes db \<and> isCacheableValidationOutcome err
       then cacheAddT L sql p else retT ()) tr'" for tr' err
    by (auto simp: retT_def intro: cacheAddT_upholds [OF assms(1) parse])
  show ?thesis
    unfolding assms(2)
  proof (rule upholds_bind [OF engineT_upholds(2)])
    show "upholds (coherentWorld L b (dbT_maxSQLBytes db)) (\<lambda>tr r. validatesSQL b e ctx sql (madeCalls tr) r)
       (bindT (if int (length sql) \<le> dbT_maxSQLBytes db \<and> isCacheableValidationOutcome err
               then cacheAddT L sql p else retT ()) (\<lambda>_. retT err)) tr'"
      if "\<exists>new. madeCalls tr' = madeCalls tr @ new \<and> validates e ctx p new (Ret err)" for tr' err
      using that validates_hit(2) [OF parse]
      by (intro upholds_bind [OF add]) (auto simp: retT_def tr)
  qed (use validates_hit(2) [OF parse] in \<open>auto simp: tr\<close>)
qed

lemma validateT_upholds:
  assumes "lru_laws L" and "dbT_validator db = enginePreparedT b e"
  shows "upholds (coherentWorld L b (dbT_maxSQLBytes db)) (\<lambda>tr r. validatesSQL b e ctx sql (madeCalls tr) r)
     (prepared_validateT L db ctx sql) []"
  unfolding prepared_validateT_def
proof (rule upholds_bind [OF cacheGetT_upholds [OF assms(1)]])
  fix tr and hit :: "Prepared option"
  assume hit: "\<exists>h. Ret hit = Ret h \<and> madeCalls tr = [] \<and> (\<forall>p. h = Some p \<longrightarrow> Parse b sql = (prepared_result p, None))"
  show "upholds (coherentWorld L b (dbT_maxSQLBytes db)) (\<lambda>tr r. validatesSQL b e ctx sql (madeCalls tr) r)
     (case hit of
         Some prepared \<Rightarrow> invokeT (\<lambda>v. validatorT_ValidatePrepared v ctx prepared) (dbT_validator db)
       | None \<Rightarrow>
           bindT (invokeT (\<lambda>v. validatorT_Prepare v ctx sql) (dbT_validator db)) (\<lambda>(prepared, err).
             if err \<noteq> None then retT err
             else bindT (invokeT (\<lambda>v. validatorT_ValidatePrepared v ctx prepared) (dbT_validator db)) (\<lambda>err.
               bindT (if int (length sql) \<le> dbT_maxSQLBytes db \<and> isCacheableValidationOutcome err
                      then cacheAddT L sql prepared else retT ())
                 (\<lambda>_. retT err)))) tr"
  proof (cases hit)
    case (Some p)
    with hit have "Parse b sql = (prepared_result p, None)" "madeCalls tr = []" by auto
    with validates_hit(1) Some show ?thesis
      by (auto simp: assms(2) intro!: upholds_mono [OF engineT_upholds(2)])
  next
    case None
    have "upholds (coherentWorld L b (dbT_maxSQLBytes db)) (\<lambda>tr r. validatesSQL b e ctx sql (madeCalls tr) r)
       (case x of (prepared, err) \<Rightarrow> if err \<noteq> None then retT err
          else bindT (invokeT (\<lambda>v. validatorT_ValidatePrepared v ctx prepared) (dbT_validator db)) (\<lambda>err.
               bindT (if int (length sql) \<le> dbT_maxSQLBytes db \<and> isCacheableValidationOutcome err
                      then cacheAddT L sql prepared else retT ())
                 (\<lambda>_. retT err))) tr'" if "prepares b ctx sql (madeCalls tr') (Ret x)" for x tr'
    proof -
      obtain p err where x: "x = (p, err)" by fastforce
      show ?thesis
      proof (cases err)
        case None
        with that x missT_upholds [OF assms, of ctx sql tr' p] show ?thesis by simp
      next
        case (Some ce)
        with that x prepares_fails [of b ctx sql "madeCalls tr'" p ce e] show ?thesis by (simp add: retT_def)
      qed
    qed
    then show ?thesis
      using None hit prepares_panics
      by (auto simp: assms(2) intro!: upholds_bind [OF engineT_upholds(1)])
  qed
qed blast

section \<open>Pools of operations\<close>

datatype ('w, 'arg) dbrequest =
    ExecSQL "'w Context" string "'arg argument list"
  | QuerySQL "'w Context" string "'arg argument list"
  | QueryRowSQL "'w Context" string "'arg argument list"

datatype ('tag, 'rows, 'row) dbresult =
    ExecResult 'tag error
  | QueryResult "'rows option" error
  | RowResult "'row guardedRow"

fun serveDB ::
    "'c lru \<Rightarrow> 'tag \<Rightarrow> ('w, 'arg, 'tag, 'rows, 'row) dbT \<Rightarrow> ('w, 'arg) dbrequest \<Rightarrow>
     (('w, 'c) dbworld, dbcall, ('tag, 'rows, 'row) dbresult) thread" where
  "serveDB L zeroTag db (ExecSQL ctx sql args) =
     bindT (prepared_ExecT L zeroTag db ctx sql args) (\<lambda>(tag, err). retT (ExecResult tag err))"
| "serveDB L zeroTag db (QuerySQL ctx sql args) =
     bindT (prepared_QueryT L db ctx sql args) (\<lambda>(rows, err). retT (QueryResult rows err))"
| "serveDB L zeroTag db (QueryRowSQL ctx sql args) =
     bindT (prepared_QueryRowT L db ctx sql args) (\<lambda>row. retT (RowResult row))"

text \<open>The parts of a request, and the result by which its operation refuses.\<close>

fun dbContext :: "('w, 'arg) dbrequest \<Rightarrow> 'w Context" where
  "dbContext (ExecSQL ctx sql args) = ctx"
| "dbContext (QuerySQL ctx sql args) = ctx"
| "dbContext (QueryRowSQL ctx sql args) = ctx"

fun dbSQL :: "('w, 'arg) dbrequest \<Rightarrow> string" where
  "dbSQL (ExecSQL ctx sql args) = sql"
| "dbSQL (QuerySQL ctx sql args) = sql"
| "dbSQL (QueryRowSQL ctx sql args) = sql"

fun dbArgs :: "('w, 'arg) dbrequest \<Rightarrow> 'arg argument list" where
  "dbArgs (ExecSQL ctx sql args) = args"
| "dbArgs (QuerySQL ctx sql args) = args"
| "dbArgs (QueryRowSQL ctx sql args) = args"

fun dbRefuses :: "'tag \<Rightarrow> ('w, 'arg) dbrequest \<Rightarrow> error \<Rightarrow> ('tag, 'rows, 'row) dbresult" where
  "dbRefuses zeroTag (ExecSQL ctx sql args) err = ExecResult zeroTag err"
| "dbRefuses zeroTag (QuerySQL ctx sql args) err = QueryResult None err"
| "dbRefuses zeroTag (QueryRowSQL ctx sql args) err = RowResult (FailedRow err)"

definition driverT ::
    "('w Context \<Rightarrow> string \<Rightarrow> 'arg argument list \<Rightarrow> ('w, 'tag \<times> error) act) \<Rightarrow>
     ('w Context \<Rightarrow> string \<Rightarrow> 'arg argument list \<Rightarrow> ('w, 'rows option \<times> error) act) \<Rightarrow>
     ('w Context \<Rightarrow> string \<Rightarrow> 'arg argument list \<Rightarrow> ('w, 'row guardedRow) act) \<Rightarrow>
     ('w, 'arg, 'tag, 'rows, 'row) executorT iface" where
  "driverT exec query queryRow =
     Some \<lparr>dyn_kind = Pointer, dyn_isNil = False, dyn_val =
       \<lparr>executorT_Exec = (\<lambda>ctx sql args. extcallT (CallDriver sql) (exec ctx sql args)),
        executorT_Query = (\<lambda>ctx sql args. extcallT (CallDriver sql) (query ctx sql args)),
        executorT_QueryRow = (\<lambda>ctx sql args. extcallT (CallDriver sql) (queryRow ctx sql args))\<rparr>\<rparr>"

text \<open>
  The contract of a guarded operation: what it sends to the driver, that it refuses rewriters
  without any call, and what it decides.
\<close>

definition guards ::
    "backend \<Rightarrow> 'w Engine \<Rightarrow> (error \<Rightarrow> 'r) \<Rightarrow> 'w Context \<Rightarrow> string \<Rightarrow> 'arg argument list \<Rightarrow>
     call list \<Rightarrow> 'r outcome \<Rightarrow> bool" where
  "guards b e refuse ctx sql args tr r =
     (guardedTrace (preparedCleared b e) sql [] tr \<and>
      (containsQueryRewriter args \<longrightarrow> tr = [] \<and> r = Ret (refuse (Some prepared_ErrQueryRewriterUnsupported))) \<and>
      (\<forall>pol. deciding_engine e pol \<longrightarrow> active ctx \<longrightarrow> \<not> containsQueryRewriter args \<longrightarrow>
         (case requestDecision pol b (ValidateSQL e ctx sql) of
            None \<Rightarrow> driverCalls tr = [sql]
          | Some err \<Rightarrow> driverCalls tr = [] \<and> r = Ret (refuse (Some err)))))"

lemma guards_validated:
  assumes "validatesSQL b e ctx sql tr r" and "\<not> containsQueryRewriter args"
  shows "r = Ret None \<Longrightarrow> guards b e refuse ctx sql args (tr @ [CallDriver sql]) r'"
    and "r = Ret (Some err) \<Longrightarrow> guards b e refuse ctx sql args tr (Ret (refuse (Some err)))"
    and "r = Panic m \<Longrightarrow> guards b e refuse ctx sql args tr (Panic m)"
proof -
  have decision: "r = Ret (requestDecision pol b (ValidateSQL e ctx sql))"
    if "deciding_engine e pol" "active ctx" for pol
    using assms(1) that unfolding validatesSQL_def by blast
  show "r = Ret None \<Longrightarrow> guards b e refuse ctx sql args (tr @ [CallDriver sql]) r'"
    "r = Ret (Some err) \<Longrightarrow> guards b e refuse ctx sql args tr (Ret (refuse (Some err)))"
    "r = Panic m \<Longrightarrow> guards b e refuse ctx sql args tr (Panic m)"
    using assms decision unfolding guards_def validatesSQL_def guardedTrace_def
    by (auto split: option.splits simp del: requestDecision.simps)
qed

lemma guardT_upholds:
  assumes "lru_laws L" and "dbT_validator db = enginePreparedT b e"
  shows "upholds (coherentWorld L b (dbT_maxSQLBytes db)) (\<lambda>tr r. guards b e refuse ctx sql args (madeCalls tr) r)
     (if prepared_containsQueryRewriter args then retT (refuse (Some prepared_ErrQueryRewriterUnsupported))
      else bindT (prepared_validateT L db ctx sql) (\<lambda>err.
        if err \<noteq> None then retT (refuse err) else outsideT (extcallT (CallDriver sql) f))) []"
proof (cases "containsQueryRewriter args")
  case True
  then show ?thesis by (simp add: prepared_copies retT_def guards_def guardedTrace_def)
next
  case False
  note guarded = guards_validated [OF _ False]
  show ?thesis
    unfolding prepared_copies if_not_P [OF False]
  proof (rule upholds_bind [OF validateT_upholds [OF assms]])
    fix tr err
    assume "validatesSQL b e ctx sql (madeCalls tr) (Ret err)"
    with guarded(1,2) [OF this, where refuse = refuse]
    show "upholds (coherentWorld L b (dbT_maxSQLBytes db)) (\<lambda>tr r. guards b e refuse ctx sql args (madeCalls tr) r)
       (if err \<noteq> None then retT (refuse err) else outsideT (extcallT (CallDriver sql) f)) tr"
      by (cases err) (simp_all add: retT_def extcallT_def)
  qed (rule guarded(3) [OF _ refl])
qed

lemma guards_map:
  "guards b e refuse ctx sql args tr (Ret x) \<Longrightarrow> guards b e (\<lambda>err. f (refuse err)) ctx sql args tr (Ret (f x))"
  "guards b e refuse ctx sql args tr (Panic m) \<Longrightarrow> guards b e refuse' ctx sql args tr (Panic m)"
  unfolding guards_def by (auto split: option.splits simp del: requestDecision.simps)

lemma dbRefuses_eta:
  "dbRefuses zeroTag (ExecSQL ctx sql args) = (\<lambda>err. case_prod ExecResult (zeroTag, err))"
  "dbRefuses zeroTag (QuerySQL ctx sql args) = (\<lambda>err. case_prod QueryResult (None, err))"
  "dbRefuses zeroTag (QueryRowSQL ctx sql args) = (\<lambda>err. RowResult (FailedRow err))"
  by (simp_all add: fun_eq_iff)

lemma serveDB_upholds:
  assumes "lru_laws L" and "dbT_validator db = enginePreparedT b e" and "dbT_executor db = driverT exec query queryRow"
  shows "upholds (coherentWorld L b (dbT_maxSQLBytes db))
     (\<lambda>tr r. guards b e (dbRefuses zeroTag q) (dbContext q) (dbSQL q) (dbArgs q) (madeCalls tr) r)
     (serveDB L zeroTag db q) []"
proof -
  note guard = guardT_upholds [OF assms(1,2)]
  have run: "invokeT (\<lambda>x. executorT_Exec x ctx sql args) (dbT_executor db) = outsideT (extcallT (CallDriver sql) (exec ctx sql args))"
    "invokeT (\<lambda>x. executorT_Query x ctx sql args) (dbT_executor db) = outsideT (extcallT (CallDriver sql) (query ctx sql args))"
    "invokeT (\<lambda>x. executorT_QueryRow x ctx sql args) (dbT_executor db) = outsideT (extcallT (CallDriver sql) (queryRow ctx sql args))"
    for ctx sql args by (simp_all add: assms(3) driverT_def invokeT_def)
  show ?thesis
  proof (cases q)
    case (ExecSQL ctx sql args)
    then show ?thesis
      unfolding ExecSQL serveDB.simps prepared_ExecT_def run
      by (intro upholds_bind [OF guard [where refuse = "Pair zeroTag"]])
         (auto simp: retT_def dbRefuses_eta simp del: prod.case split: prod.split dest: guards_map(1) [where f = "case_prod ExecResult"] guards_map(2))
  next
    case (QuerySQL ctx sql args)
    then show ?thesis
      unfolding QuerySQL serveDB.simps prepared_QueryT_def run
      by (intro upholds_bind [OF guard [where refuse = "Pair None"]])
         (auto simp: retT_def dbRefuses_eta simp del: prod.case split: prod.split dest: guards_map(1) [where f = "case_prod QueryResult"] guards_map(2))
  next
    case (QueryRowSQL ctx sql args)
    then show ?thesis
      unfolding QueryRowSQL serveDB.simps prepared_QueryRowT_def run
      by (intro upholds_bind [OF guard [where refuse = FailedRow]])
         (auto simp: retT_def dbRefuses_eta dest: guards_map(1) [where f = RowResult] guards_map(2))
  qed
qed

text \<open>
  Any number of goroutines on one database. The rest of the program may change the outside
  world; the cache is private to the database.
\<close>

definition besides :: "('w \<Rightarrow> 'w \<Rightarrow> bool) \<Rightarrow> ('w, 'c) dbworld \<Rightarrow> ('w, 'c) dbworld \<Rightarrow> bool" where
  "besides drift s s' = (drift (outside s) (outside s') \<and> dbcache s' = dbcache s)"

definition dbPool ::
    "'c lru \<Rightarrow> 'tag \<Rightarrow> ('w, 'arg, 'tag, 'rows, 'row) dbT \<Rightarrow> (nat \<Rightarrow> ('w, 'arg) dbrequest) \<Rightarrow> 'w \<Rightarrow> 'c \<Rightarrow>
     (('w, 'c) dbworld, dbcall, ('tag, 'rows, 'row) dbresult) pool" where
  "dbPool L zeroTag db requests w c = startPool (\<lambda>i. serveDB L zeroTag db (requests i)) \<lparr>outside = w, dbcache = c\<rparr>"

lemma dbPool_upholds:
  assumes "lru_laws L" and "dbT_validator db = enginePreparedT b e" and "dbT_executor db = driverT exec query queryRow"
    and "prepared_NewGuardedDB L validator executor options = Inr (aloneDB db, c0)"
    and "(pool_step (besides drift))\<^sup>*\<^sup>* (dbPool L zeroTag db requests w c0) c"
  shows "coherent L b (dbT_maxSQLBytes db) (dbcache (shared c))"
    and "upholds (coherentWorld L b (dbT_maxSQLBytes db))
     (\<lambda>tr r. guards b e (dbRefuses zeroTag (requests i)) (dbContext (requests i)) (dbSQL (requests i))
        (dbArgs (requests i)) (madeCalls tr) r) (threads c i) (callsOf i (history c))"
proof -
  have "coherentWorld L b (dbT_maxSQLBytes db) \<lparr>outside = w, dbcache = c0\<rparr>"
    using NewGuardedDB_cache [OF assms(4)] assms(1) by (auto simp: lru_laws_def coherentWorld_def coherent_def)
  from pool_upholds [OF assms(5) [unfolded dbPool_def] this serveDB_upholds [OF assms(1-3)]]
  have "coherentWorld L b (dbT_maxSQLBytes db) (shared c) \<and> (\<forall>i. upholds (coherentWorld L b (dbT_maxSQLBytes db))
     (\<lambda>tr r. guards b e (dbRefuses zeroTag (requests i)) (dbContext (requests i)) (dbSQL (requests i))
        (dbArgs (requests i)) (madeCalls tr) r) (threads c i) (callsOf i (history c)))"
    by (simp add: besides_def coherentWorld_def)
  then show "coherent L b (dbT_maxSQLBytes db) (dbcache (shared c))"
    "upholds (coherentWorld L b (dbT_maxSQLBytes db))
     (\<lambda>tr r. guards b e (dbRefuses zeroTag (requests i)) (dbContext (requests i)) (dbSQL (requests i))
        (dbArgs (requests i)) (madeCalls tr) r) (threads c i) (callsOf i (history c))"
    by (auto simp: coherentWorld_def)
qed

text \<open>A trace that is not finished yet is guarded as well.\<close>

lemma guardedTrace_prefix:
  assumes "guardedTrace cleared sql [] (tr @ rest)"
  shows "guardedTrace cleared sql [] tr"
proof (cases "driverCalls tr = []")
  case False
  with assms obtain pre where pre: "cleared sql pre" "driverCalls pre = []" "tr @ rest = pre @ [CallDriver sql]"
    unfolding guardedTrace_def by (auto simp: append_eq_append_conv2)
  show ?thesis
  proof (cases "rest = []")
    case unfinished: False
    with unfinished pre(3) have "pre = tr @ butlast rest" by (metis butlast_append butlast_snoc)
    with pre(2) False show ?thesis by simp
  qed (use assms in simp)
qed (simp add: guardedTrace_def)

section \<open>Concurrent use of the database\<close>

text \<open>The sample database, and three goroutines that use it.\<close>

definition sampleDBT :: "(unit, unit, unit, unit, unit) dbT" where
  "sampleDBT =
     \<lparr>dbT_validator = enginePreparedT sampleBackend sampleEngine,
      dbT_executor = driverT (\<lambda>_ _ _. retE ((), None)) (\<lambda>_ _ _. retE (Some (), None)) (\<lambda>_ _ _. retE (DriverRow ())),
      dbT_maxSQLBytes = 1024\<rparr>"

definition sampleDBRequests :: "nat \<Rightarrow> (unit, unit) dbrequest" where
  "sampleDBRequests i =
     (if i = 0 then ExecSQL Background ''DELETE FROM t WHERE c'' []
      else if i = 1 then ExecSQL Background ''DELETE FROM t WHERE c'' []
      else QuerySQL Background ''DELETE FROM t'' [])"

lemma sampleDBT_parts:
  "dbT_validator sampleDBT = enginePreparedT sampleBackend sampleEngine"
  "dbT_executor sampleDBT =
     driverT (\<lambda>_ _ _. retE ((), None)) (\<lambda>_ _ _. retE (Some (), None)) (\<lambda>_ _ _. retE (DriverRow ()))"
  by (simp_all add: sampleDBT_def)

lemma sampleDBT_new:
  "prepared_NewGuardedDB listLRU (aloneValidator (dbT_validator sampleDBT)) (aloneExecutor (dbT_executor sampleDBT))
     \<lparr>Capacity = 8, MaxSQLBytes = 1024\<rparr> = Inr (aloneDB sampleDBT, (8, []))"
  by (simp add: prepared_NewGuardedDB_def prepared_copies isNil_def aloneDB_def sampleDBT_def alone_engine
      enginePrepared_def aloneExecutor_def driverT_def listLRU_def)

text \<open>The first goroutine has run, the others have not started.\<close>

lemma samplePool_run:
  obtains c where "(pool_step (besides (\<lambda>_ _. True)))\<^sup>*\<^sup>* (dbPool listLRU () sampleDBT sampleDBRequests () (8, [])) c"
    and "threads c 0 = Done (Ret (ExecResult () None))"
    and "lru_entries listLRU (dbcache (shared c)) ''DELETE FROM t WHERE c'' \<noteq> None"
    and "driverCalls (madeCalls (callsOf 0 (history c))) = [''DELETE FROM t WHERE c'']"
proof -
  let ?c = "dbPool listLRU () sampleDBT sampleDBRequests () (8, [])"
  let ?t = "serveDB listLRU () sampleDBT (sampleDBRequests 0)"
  let ?s = "\<lparr>world = \<lparr>outside = (), dbcache = (8, [])\<rparr>, calls = []\<rparr>"
  have "threads ?c 0 = ?t" "world ?s = shared ?c" "history ?c = []" by (simp_all add: dbPool_def startPool_def)
  with pool_runs [OF this(1,2), of "besides (\<lambda>_ _. True)"] obtain d h where
    d: "(pool_step (besides (\<lambda>_ _. True)))\<^sup>*\<^sup>* ?c d" "threads d 0 = Done (fst (runT ?t ?s))"
      "shared d = world (snd (runT ?t ?s))" "history d = map (Pair 0) (calls (snd (runT ?t ?s)))" by auto
  have "fst (runT ?t ?s) = Ret (ExecResult () None)" by code_simp
  moreover have "lru_entries listLRU (dbcache (world (snd (runT ?t ?s)))) ''DELETE FROM t WHERE c'' \<noteq> None" by code_simp
  moreover have "driverCalls (madeCalls (calls (snd (runT ?t ?s)))) = [''DELETE FROM t WHERE c'']" by code_simp
  ultimately show thesis using d that by simp
qed


text \<open>
  C11: the cache stays coherent under concurrency: whatever number of goroutines use the
  database, however their lookups, validations and additions interleave, at every moment each
  cached value is the parse result of the SQL it is stored under, and that SQL is within the
  size limit.
\<close>

theorem cache_coherent_concurrently:
  assumes "lru_laws L" and "dbT_validator db = enginePreparedT b e" and "dbT_executor db = driverT exec query queryRow"
    and "prepared_NewGuardedDB L validator executor options = Inr (aloneDB db, c0)"
    and "(pool_step (besides drift))\<^sup>*\<^sup>* (dbPool L zeroTag db requests w c0) c"
    and "lru_entries L (dbcache (shared c)) sql = Some p"
  shows "Parse b sql = (prepared_result p, None) \<and> int (length sql) \<le> dbT_maxSQLBytes db"
  using dbPool_upholds(1) [OF assms(1-5)] assms(6) by (simp add: coherent_def)

theorem cache_coherent_concurrently_witness:
  "\<exists>c p. (pool_step (besides (\<lambda>_ _. True)))\<^sup>*\<^sup>* (dbPool listLRU () sampleDBT sampleDBRequests () (8, [])) c \<and>
     lru_entries listLRU (dbcache (shared c)) ''DELETE FROM t WHERE c'' = Some p \<and>
     Parse sampleBackend ''DELETE FROM t WHERE c'' = (prepared_result p, None)"
proof -
  obtain c where c: "(pool_step (besides (\<lambda>_ _. True)))\<^sup>*\<^sup>* (dbPool listLRU () sampleDBT sampleDBRequests () (8, [])) c"
    "lru_entries listLRU (dbcache (shared c)) ''DELETE FROM t WHERE c'' \<noteq> None" by (rule samplePool_run)
  then obtain p where p: "lru_entries listLRU (dbcache (shared c)) ''DELETE FROM t WHERE c'' = Some p" by blast
  from cache_coherent_concurrently [OF listLRU_laws sampleDBT_parts sampleDBT_new c(1) p] c(1) p show ?thesis by blast
qed

text \<open>
  C5: the caching database guards its driver under concurrency: at every moment each goroutine
  has sent nothing to the driver, or exactly its own SQL, once and as its last call, right
  after validating the parse result of that SQL itself, freshly parsed or taken from the
  shared cache, with every rule evaluated on every statement. A goroutine with a query rewriter among its arguments
  makes no call at all.
\<close>

theorem drives_only_allowed_concurrently:
  assumes "lru_laws L" and "dbT_validator db = enginePreparedT b e" and "dbT_executor db = driverT exec query queryRow"
    and "prepared_NewGuardedDB L validator executor options = Inr (aloneDB db, c0)"
    and "(pool_step (besides drift))\<^sup>*\<^sup>* (dbPool L zeroTag db requests w c0) c"
  shows "guardedTrace (preparedCleared b e) (dbSQL (requests i)) [] (madeCalls (callsOf i (history c))) \<and>
     (containsQueryRewriter (dbArgs (requests i)) \<longrightarrow> madeCalls (callsOf i (history c)) = [])"
proof -
  have "coherentWorld L b (dbT_maxSQLBytes db) (shared c)"
    using dbPool_upholds(1) [OF assms] by (simp add: coherentWorld_def)
  from upholds_extends [OF dbPool_upholds(2) [OF assms, of i] this] obtain new where
    "guardedTrace (preparedCleared b e) (dbSQL (requests i)) [] (madeCalls (callsOf i (history c)) @ new)"
    "containsQueryRewriter (dbArgs (requests i)) \<longrightarrow> madeCalls (callsOf i (history c)) @ new = []"
    by (auto simp: guards_def simp del: append_is_Nil_conv)
  then show ?thesis by (auto intro: guardedTrace_prefix)
qed

theorem drives_only_allowed_concurrently_witness:
  "\<exists>c. (pool_step (besides (\<lambda>_ _. True)))\<^sup>*\<^sup>* (dbPool listLRU () sampleDBT sampleDBRequests () (8, [])) c \<and>
     driverCalls (madeCalls (callsOf 0 (history c))) = [''DELETE FROM t WHERE c''] \<and>
     guardedTrace (preparedCleared sampleBackend sampleEngine) ''DELETE FROM t WHERE c'' []
       (madeCalls (callsOf 0 (history c)))"
proof -
  obtain c where c: "(pool_step (besides (\<lambda>_ _. True)))\<^sup>*\<^sup>* (dbPool listLRU () sampleDBT sampleDBRequests () (8, [])) c"
    "driverCalls (madeCalls (callsOf 0 (history c))) = [''DELETE FROM t WHERE c'']" by (rule samplePool_run)
  from drives_only_allowed_concurrently [OF listLRU_laws sampleDBT_parts sampleDBT_new c(1), of 0] c
  show ?thesis by (auto simp: sampleDBRequests_def)
qed

text \<open>
  C12: neither the cache nor concurrency changes a decision. For an engine whose rules decide by
  the statement, an active context and arguments without a rewriter, a finished operation has executed its
  SQL exactly when the SQL parses and the policy allows it, and otherwise it has sent nothing and returned the error
  that \<open>Validate\<close> alone gives.
\<close>

theorem concurrent_cache_decides:
  assumes "lru_laws L" and "dbT_validator db = enginePreparedT b e" and "dbT_executor db = driverT exec query queryRow"
    and "prepared_NewGuardedDB L validator executor options = Inr (aloneDB db, c0)"
    and "(pool_step (besides drift))\<^sup>*\<^sup>* (dbPool L zeroTag db requests w c0) c"
    and "threads c i = Done r" and "deciding_engine e pol" and "active (dbContext (requests i))"
    and "\<not> containsQueryRewriter (dbArgs (requests i))"
  shows "case fst (Validate b e (dbContext (requests i)) (dbSQL (requests i)) s) of
       Ret None \<Rightarrow> driverCalls (madeCalls (callsOf i (history c))) = [dbSQL (requests i)]
     | Ret (Some err) \<Rightarrow> driverCalls (madeCalls (callsOf i (history c))) = [] \<and>
         r = Ret (dbRefuses zeroTag (requests i) (Some err))
     | Panic m \<Rightarrow> False"
proof -
  let ?q = "ValidateSQL e (dbContext (requests i)) (dbSQL (requests i))"
  have "fst (Validate b e (dbContext (requests i)) (dbSQL (requests i)) s) = Ret (requestDecision pol b ?q)"
    using operation_decides [of ?q pol b s] assms(7,8) by simp
  with dbPool_upholds(2) [OF assms(1-5), of i] assms(6-9) show ?thesis
    by (auto simp: guards_def simp del: requestDecision.simps split: option.splits)
qed

theorem concurrent_cache_decides_witness:
  "\<exists>c. (pool_step (besides (\<lambda>_ _. True)))\<^sup>*\<^sup>* (dbPool listLRU () sampleDBT sampleDBRequests () (8, [])) c \<and>
     threads c 0 = Done (Ret (ExecResult () None)) \<and>
     driverCalls (madeCalls (callsOf 0 (history c))) = [''DELETE FROM t WHERE c'']"
proof -
  obtain c where c: "(pool_step (besides (\<lambda>_ _. True)))\<^sup>*\<^sup>* (dbPool listLRU () sampleDBT sampleDBRequests () (8, [])) c"
    "threads c 0 = Done (Ret (ExecResult () None))" by (rule samplePool_run)
  have "fst (Validate sampleBackend sampleEngine Background ''DELETE FROM t WHERE c'' start) = Ret None" by code_simp
  with concurrent_cache_decides [OF listLRU_laws sampleDBT_parts sampleDBT_new c
      sample.deciding.deciding_engine_axioms, of start] c
  show ?thesis by (auto simp: sampleDBRequests_def)
qed

end
