(* ===== verification/Sizeprobe.thy ===== *)
theory Sizeprobe
  imports Guard_Samples
begin

text \<open>
  The size probe, \<^verbatim>\<open>internal/testutil/cmd/sizeprobe/main.go\<close>: a program that builds an engine
  from the two \<^verbatim>\<open>WHERE\<close> rules and validates three fixed queries, panicking on any error.
\<close>

section \<open>The code\<close>

definition probeQueries :: "string list" where
  "probeQueries =
     [''SELECT account_id FROM accounts WHERE active'',
      ''UPDATE accounts SET active = false WHERE account_id = 42'',
      ''DELETE FROM sessions WHERE expired'']"

fun probeLoop :: "backend \<Rightarrow> 'w Engine \<Rightarrow> string list \<Rightarrow> ('w, unit) prog" where
  "probeLoop b engine [] = retE ()"
| "probeLoop b engine (query # rest) =
     bindE (Validate b engine Background query) (\<lambda>err.
       case err of Some e \<Rightarrow> panicE (error_text e) | None \<Rightarrow> probeLoop b engine rest)"

definition sizeprobe_main :: "backend \<Rightarrow> ('w, unit) prog" where
  "sizeprobe_main b =
     bindE (NewEngine noSinks [NewUpdateRequiresWhere, NewDeleteRequiresWhere]) (\<lambda>result.
       case result of
         Inl e \<Rightarrow> panicE (error_text e)
       | Inr engine \<Rightarrow> probeLoop b engine probeQueries)"

section \<open>Properties\<close>

definition probePolicy :: policy where
  "probePolicy =
     [(updateRequiresWhereRuleID, onNode (missingWhere ''UpdateStmt'')),
      (deleteRequiresWhereRuleID, onNode (missingWhere ''DeleteStmt''))]"

definition passes :: "backend \<Rightarrow> string \<Rightarrow> bool" where
  "passes b sql =
     (\<exists>r. Parse b sql = (Some r, None) \<and>
        (\<forall>n. covered r n \<longrightarrow> \<not> missingWhere ''UpdateStmt'' n \<and> \<not> missingWhere ''DeleteStmt'' n))"

lemma probe_validate:
  assumes "policy_engine e probePolicy"
  shows "fst (Validate b e Background sql s) = Ret None \<longleftrightarrow> passes b sql"
proof -
  have "policyDecision probePolicy (Some r) = None \<longleftrightarrow>
      (\<forall>n. covered r n \<longrightarrow> \<not> missingWhere ''UpdateStmt'' n \<and> \<not> missingWhere ''DeleteStmt'' n)" for r
    by (simp add: policyDecision_allows probePolicy_def)
  with Parse_cases [of b sql] show ?thesis
    by (auto simp: policy_engine.Validate_decides [OF assms active_Background] passes_def
        translateParserError_def Let_def)
qed

lemma probe_loop:
  assumes "policy_engine e probePolicy"
  shows "fst (probeLoop b e queries s) = Ret () \<longleftrightarrow> list_all (passes b) queries"
proof (induction queries arbitrary: s)
  case (Cons q qs)
  obtain r t where run: "Validate b e Background q s = (r, t)" by fastforce
  have "\<exists>err. r = Ret err"
    using policy_engine.Validate_decides [OF assms active_Background, of b q s] run by simp
  with Cons [of t] probe_validate [OF assms, of b q s] run show ?case
    by (auto simp: bindE_apply panicE_apply split: option.splits)
qed simp

lemma probe_policies:
  "list_all2 (\<lambda>rule p. rule_policy rule (fst p) (snd p)) [NewUpdateRequiresWhere, NewDeleteRequiresWhere] probePolicy"
  by (simp add: probePolicy_def update_where.rule_policy_axioms delete_where.rule_policy_axioms)

text \<open>
  C33: the probe ends without a panic exactly when each of its three queries parses and no
  statement of it updates or deletes without a condition; constructing its engine never fails.
\<close>

theorem sizeprobe_succeeds_iff:
  "fst (sizeprobe_main b s) = Ret () \<longleftrightarrow> list_all (passes b) probeQueries"
proof -
  have "distinct (map fst probePolicy)" by (simp add: probePolicy_def builtin_ids)
  moreover have "\<not> isTypedNil (opt_Metrics noSinks)" "\<not> isTypedNil (opt_Logger noSinks)"
    by (simp_all add: noSinks_def isTypedNil_def)
  ultimately obtain e where new: "fst (NewEngine noSinks [NewUpdateRequiresWhere, NewDeleteRequiresWhere] s) = Ret (Inr e)"
      and pol: "policy_engine e probePolicy"
    by (rule NewEngine_policy [OF probe_policies])
  from new obtain t where "NewEngine noSinks [NewUpdateRequiresWhere, NewDeleteRequiresWhere] s = (Ret (Inr e), t)"
    by (rule outcomeE)
  then show ?thesis using probe_loop [OF pol, of b probeQueries t] by (simp add: sizeprobe_main_def bindE_apply)
qed

end
