(* ===== verification/Go_Float.thy ===== *)
theory Go_Float
  imports Guard_Prelude Complex_Main "HOL-Library.Log_Nat"
begin

text \<open>
  The \<open>float64\<close> arithmetic and formatting the chart tool uses: IEEE 754 binary64 values as exact
  rationals, infinities and NaN, with one rounding, to nearest and ties to even, after every
  operation; and \<^verbatim>\<open>%.nf\<close>, which rounds the exact value to \<open>n\<close> decimals, ties to even. The two
  zeros are one value here: the tool never divides by a negative number and never prints a
  negative one. The theory shows that the rounding gives a nearest value of the format, is
  monotone and leaves representable values alone, which is what reasoning about the drawing
  needs.
\<close>

section \<open>Bit patterns\<close>

text \<open>
  The parts of a \<open>float64\<close>: sign bit, eleven exponent bits, 52 fraction bits. \<open>value > 0\<close> is
  false for a NaN and for both zeros.
\<close>

definition exponent :: "64 word \<Rightarrow> nat" where
  "exponent v = (unat v div 2 ^ 52) mod 2 ^ 11"

definition fraction :: "64 word \<Rightarrow> nat" where
  "fraction v = unat v mod 2 ^ 52"

definition negative :: "64 word \<Rightarrow> bool" where
  "negative v = (2 ^ 63 \<le> unat v)"

definition math_IsNaN :: "64 word \<Rightarrow> bool" where
  "math_IsNaN v = (exponent v = 2047 \<and> fraction v \<noteq> 0)"

text \<open>\<open>math.IsInf(v, 0)\<close>: either infinity.\<close>

definition math_IsInf :: "64 word \<Rightarrow> bool" where
  "math_IsInf v = (exponent v = 2047 \<and> fraction v = 0)"

definition aboveZero :: "64 word \<Rightarrow> bool" where
  "aboveZero v = (\<not> math_IsNaN v \<and> \<not> negative v \<and> (exponent v \<noteq> 0 \<or> fraction v \<noteq> 0))"

section \<open>Rounding\<close>

definition roundHalfEven :: "rat \<Rightarrow> int" where
  "roundHalfEven q =
     (let n = \<lfloor>q\<rfloor>; d = q - of_int n
      in if d < 1 / 2 then n else if d > 1 / 2 then n + 1 else if even n then n else n + 1)"

text \<open>The exponent of a positive rational: the \<open>e\<close> with \<open>2 ^ e \<le> x < 2 ^ (e + 1)\<close>.\<close>

definition binade :: "rat \<Rightarrow> int" where
  "binade x =
     (let (p, q) = quotient_of x; e = int (floorlog 2 (nat p)) - int (floorlog 2 (nat q))
      in if 2 powi e \<le> x then e else e - 1)"

text \<open>The distance of neighbouring values around a positive rational; subnormals share one.\<close>

definition ulp :: "rat \<Rightarrow> rat" where
  "ulp x = 2 powi (max (binade x) (-1022) - 52)"

definition roundMagnitude :: "rat \<Rightarrow> rat" where
  "roundMagnitude x = of_int (roundHalfEven (x / ulp x)) * ulp x"

definition fround :: "rat \<Rightarrow> rat" where
  "fround x =
     (if x = 0 then 0 else if 0 < x then roundMagnitude x else - roundMagnitude (- x))"

section \<open>Arithmetic\<close>

datatype float64 = Fin rat | Infinite bool | NotANumber

definition ofRat :: "rat \<Rightarrow> float64" where
  "ofRat x = (let y = fround x in if \<bar>y\<bar> \<ge> 2 ^ 1024 then Infinite (y < 0) else Fin y)"

fun fmul :: "float64 \<Rightarrow> float64 \<Rightarrow> float64" where
  "fmul (Fin a) (Fin b) = ofRat (a * b)"
| "fmul (Infinite s) (Fin b) = (if b = 0 then NotANumber else Infinite (s \<noteq> (b < 0)))"
| "fmul (Fin a) (Infinite s) = (if a = 0 then NotANumber else Infinite (s \<noteq> (a < 0)))"
| "fmul (Infinite s) (Infinite t) = Infinite (s \<noteq> t)"
| "fmul _ _ = NotANumber"

fun fdiv :: "float64 \<Rightarrow> float64 \<Rightarrow> float64" where
  "fdiv (Fin a) (Fin b) =
     (if b = 0 then (if a = 0 then NotANumber else Infinite (a < 0)) else ofRat (a / b))"
| "fdiv (Fin a) (Infinite s) = Fin 0"
| "fdiv (Infinite s) (Fin b) = Infinite (s \<noteq> (b < 0))"
| "fdiv _ _ = NotANumber"

fun fadd :: "float64 \<Rightarrow> float64 \<Rightarrow> float64" where
  "fadd (Fin a) (Fin b) = ofRat (a + b)"
| "fadd (Infinite s) (Fin b) = Infinite s"
| "fadd (Fin a) (Infinite s) = Infinite s"
| "fadd (Infinite s) (Infinite t) = (if s = t then Infinite s else NotANumber)"
| "fadd _ _ = NotANumber"

fun fneg :: "float64 \<Rightarrow> float64" where
  "fneg (Fin a) = Fin (- a)"
| "fneg (Infinite s) = Infinite (\<not> s)"
| "fneg NotANumber = NotANumber"

definition fsub :: "float64 \<Rightarrow> float64 \<Rightarrow> float64" where
  "fsub a b = fadd a (fneg b)"

text \<open>\<open>a \<le> b\<close>, false when either is NaN; the built-in \<open>max\<close> and \<open>math.Min\<close> return NaN then.\<close>

fun fle :: "float64 \<Rightarrow> float64 \<Rightarrow> bool" where
  "fle (Fin a) (Fin b) = (a \<le> b)"
| "fle (Infinite s) (Fin b) = s"
| "fle (Fin a) (Infinite s) = (\<not> s)"
| "fle (Infinite s) (Infinite t) = (s \<or> \<not> t)"
| "fle _ _ = False"

definition fmax :: "float64 \<Rightarrow> float64 \<Rightarrow> float64" where
  "fmax a b = (if a = NotANumber \<or> b = NotANumber then NotANumber else if fle a b then b else a)"

definition math_Min :: "float64 \<Rightarrow> float64 \<Rightarrow> float64" where
  "math_Min a b = (if a = NotANumber \<or> b = NotANumber then NotANumber else if fle a b then a else b)"

text \<open>The value of a bit pattern.\<close>

definition ofBits :: "64 word \<Rightarrow> float64" where
  "ofBits v =
     (let f = rat_of_nat (fraction v); sign = (if negative v then -1 else 1)
      in if exponent v = 2047 then (if fraction v = 0 then Infinite (negative v) else NotANumber)
         else if exponent v = 0 then Fin (sign * f * 2 powi (-1074))
         else Fin (sign * (2 ^ 52 + f) * 2 powi (int (exponent v) - 1075)))"

section \<open>Formatting\<close>

definition digit :: "nat \<Rightarrow> char" where
  "digit n = char_of (48 + n)"

fun showNat :: "nat \<Rightarrow> string" where
  "showNat n = (if n < 10 then [digit n] else showNat (n div 10) @ [digit (n mod 10)])"

declare showNat.simps [simp del]

fun showPadded :: "nat \<Rightarrow> nat \<Rightarrow> string" where
  "showPadded 0 n = []"
| "showPadded (Suc k) n = showPadded k (n div 10) @ [digit (n mod 10)]"

definition showFixed :: "nat \<Rightarrow> nat \<Rightarrow> string" where
  "showFixed precision n =
     (if precision = 0 then showNat n
      else showNat (n div 10 ^ precision) @ ''.'' @ showPadded precision (n mod 10 ^ precision))"

fun formatFixed :: "nat \<Rightarrow> float64 \<Rightarrow> string" where
  "formatFixed precision (Fin x) =
     (if x < 0 then ''-'' else []) @ showFixed precision (nat (roundHalfEven (\<bar>x\<bar> * 10 ^ precision)))"
| "formatFixed precision (Infinite s) = (if s then ''-Inf'' else ''+Inf'')"
| "formatFixed precision NotANumber = ''NaN''"

section \<open>Lemmas\<close>

lemma float_split: "unat v = (if negative v then 2 ^ 63 else 0) + exponent v * 2 ^ 52 + fraction v"
proof -
  let ?q = "unat v div 2 ^ 52"
  have "unat v < 2 ^ 64" using unsigned_less [of v] by simp
  then have small: "?q < 4096" by (simp add: less_mult_imp_div_less)
  have neg: "negative v \<longleftrightarrow> 2048 \<le> ?q"
    unfolding negative_def by (simp add: less_eq_div_iff_mult_less_eq)
  have "?q mod 2048 = (if 2048 \<le> ?q then ?q - 2048 else ?q)"
    using small by (simp add: le_mod_geq)
  then have "?q = (if negative v then 2048 else 0) + exponent v"
    by (simp add: exponent_def neg)
  moreover have "unat v = ?q * 2 ^ 52 + fraction v"
    unfolding fraction_def by simp
  ultimately have "unat v = ((if negative v then 2048 else 0) + exponent v) * 2 ^ 52 + fraction v" by metis
  then show ?thesis by (auto simp: algebra_simps)
qed

lemma float_parts: "exponent v < 2048" "fraction v < 2 ^ 52"
  by (simp_all add: exponent_def fraction_def)

lemma roundHalfEven_bounds:
  "of_int (roundHalfEven q) \<le> q + 1 / 2" "q - 1 / 2 \<le> of_int (roundHalfEven q)"
  unfolding roundHalfEven_def Let_def by (auto; linarith)+

lemma roundHalfEven_of_int [simp]: "roundHalfEven (of_int k) = k"
  by (simp add: roundHalfEven_def)

lemma roundHalfEven_mono:
  assumes "x \<le> y"
  shows "roundHalfEven x \<le> roundHalfEven y"
proof (cases "\<lfloor>x\<rfloor> = \<lfloor>y\<rfloor>")
  case True
  with assms show ?thesis by (simp add: roundHalfEven_def Let_def)
next
  case False
  with assms floor_mono [of x y] have "\<lfloor>x\<rfloor> + 1 \<le> \<lfloor>y\<rfloor>" by linarith
  moreover have "roundHalfEven x \<le> \<lfloor>x\<rfloor> + 1" "\<lfloor>y\<rfloor> \<le> roundHalfEven y"
    by (simp_all add: roundHalfEven_def Let_def)
  ultimately show ?thesis by linarith
qed

lemma roundHalfEven_le: "q \<le> of_int k \<Longrightarrow> roundHalfEven q \<le> k"
  using roundHalfEven_mono [of q "of_int k"] by simp

lemma le_roundHalfEven: "of_int k \<le> q \<Longrightarrow> k \<le> roundHalfEven q"
  using roundHalfEven_mono [of "of_int k" q] by simp

lemma pow2_pos [simp]: "0 < (2 :: rat) powi n"
  by (simp add: zero_less_power_int)

lemma pow2_mono: "m \<le> n \<Longrightarrow> (2 :: rat) powi m \<le> 2 powi n"
  by (simp add: power_int_increasing)

lemma floorlog_powi:
  assumes "0 < p"
  shows "2 powi (int (floorlog 2 (nat p)) - 1) \<le> rat_of_int p" "rat_of_int p < 2 powi int (floorlog 2 (nat p))"
proof -
  from assms have "2 ^ (floorlog 2 (nat p) - 1) \<le> nat p \<and> nat p < 2 ^ floorlog 2 (nat p)"
    by (intro floorlog_bounds) auto
  moreover from assms have "0 < floorlog 2 (nat p)" by (simp add: floorlog_def)
  ultimately have "(2::rat) ^ (floorlog 2 (nat p) - 1) \<le> of_nat (nat p)" "of_nat (nat p) < (2::rat) ^ floorlog 2 (nat p)"
    by (metis of_nat_le_iff of_nat_numeral of_nat_power, metis of_nat_less_iff of_nat_numeral of_nat_power)
  with assms \<open>0 < floorlog 2 (nat p)\<close> show "2 powi (int (floorlog 2 (nat p)) - 1) \<le> rat_of_int p"
    "rat_of_int p < 2 powi int (floorlog 2 (nat p))"
    by (simp_all add: power_int_def nat_diff_distrib)
qed

lemma binade_bounds:
  assumes "0 < x"
  shows "2 powi binade x \<le> x" "x < 2 powi (binade x + 1)"
proof -
  obtain p q where pq: "quotient_of x = (p, q)" by fastforce
  have q: "0 < q" and x: "x = of_int p / of_int q"
    using quotient_of_denom_pos [OF pq] quotient_of_div [OF pq] by simp_all
  with assms have p: "0 < p" by (simp add: zero_less_divide_iff)
  define m n where "m = int (floorlog 2 (nat p))" "n = int (floorlog 2 (nat q))"
  note P = floorlog_powi [OF p, folded m_n_def] and Q = floorlog_powi [OF q, folded m_n_def]
  have "2 powi (m - 1) * rat_of_int q \<le> of_int p * 2 powi n"
    using P(1) Q(2) q p by (intro mult_mono) auto
  then have low: "2 powi (m - n - 1) \<le> x"
    using q by (simp add: x power_int_diff power_int_add field_simps)
  have "rat_of_int p * 2 powi (n - 1) < 2 powi m * rat_of_int q"
    using P(2) Q(1) q p by (intro mult_less_le_imp_less) auto
  then have high: "x < 2 powi (m - n + 1)"
    using q by (simp add: x power_int_diff power_int_add field_simps)
  have b: "binade x = (if 2 powi (m - n) \<le> x then m - n else m - n - 1)"
    by (simp add: binade_def pq m_n_def Let_def)
  from b low show "2 powi binade x \<le> x" by simp
  from b high show "x < 2 powi (binade x + 1)" by auto
qed

lemma binade_le:
  assumes "0 < x" and "x < 2 powi (e + 1)"
  shows "binade x \<le> e"
proof (rule ccontr)
  assume "\<not> binade x \<le> e"
  then have "(2 :: rat) powi (e + 1) \<le> 2 powi binade x" by (intro pow2_mono) simp
  with assms binade_bounds(1) [OF assms(1)] show False by linarith
qed

lemma binade_mono:
  assumes "0 < x" and "x \<le> y"
  shows "binade x \<le> binade y"
  using assms binade_bounds(2) [of y] by (intro binade_le) auto

lemma ulp_pos [simp]: "0 < ulp x" "ulp x \<noteq> 0"
  by (simp_all add: ulp_def)

lemma ulp_scale:
  "of_int (2 ^ 53) * 2 powi (e - 52) = (2 :: rat) powi (e + 1)"
  "of_int (2 ^ 52) * 2 powi (e - 52) = (2 :: rat) powi e"
  by (simp_all add: power_int_diff power_int_add)

lemma roundMagnitude_mono:
  assumes "0 < x" and "x \<le> y"
  shows "roundMagnitude x \<le> roundMagnitude y"
proof -
  define E F where "E = max (binade x) (-1022)" "F = max (binade y) (-1022)"
  have ulps: "ulp x = 2 powi (E - 52)" "ulp y = 2 powi (F - 52)" by (simp_all add: ulp_def E_F_def)
  have pos: "0 < y" using assms by simp
  show ?thesis
  proof (cases "E = F")
    case True
    then have same: "ulp x = ulp y" by (simp add: ulps)
    have "roundHalfEven (x / ulp x) \<le> roundHalfEven (y / ulp x)"
      using assms by (intro roundHalfEven_mono divide_right_mono) (simp_all add: less_imp_le)
    then show ?thesis by (simp add: roundMagnitude_def same mult_right_mono less_imp_le)
  next
    case False
    with binade_mono [OF assms] have EF: "E + 1 \<le> F" "F = binade y" by (auto simp: E_F_def)
    have "x < 2 powi (E + 1)"
      using binade_bounds(2) [OF assms(1)] pow2_mono [of "binade x + 1" "E + 1"] by (simp add: E_F_def)
    then have "x / ulp x \<le> of_int (2 ^ 53)"
      unfolding ulps ulp_scale(1) [symmetric] by (simp add: divide_le_eq)
    then have "roundHalfEven (x / ulp x) \<le> 2 ^ 53"
      by (rule roundHalfEven_le)
    then have "roundMagnitude x \<le> of_int (2 ^ 53) * ulp x"
      unfolding roundMagnitude_def by (intro mult_right_mono) (simp_all add: less_imp_le of_int_le_iff del: of_int_power of_int_numeral)
    also have "\<dots> = 2 powi (E + 1)" by (simp only: ulps ulp_scale)
    also have "\<dots> \<le> 2 powi F" using EF by (intro pow2_mono)
    also have "\<dots> = of_int (2 ^ 52) * ulp y" by (simp only: ulps ulp_scale)
    also have "\<dots> \<le> roundMagnitude y"
    proof -
      have "of_int (2 ^ 52) \<le> y / ulp y"
        using binade_bounds(1) [OF pos] unfolding EF(2) [symmetric] ulps ulp_scale(2) [of F, symmetric]
        by (simp add: le_divide_eq)
      then have "2 ^ 52 \<le> roundHalfEven (y / ulp y)"
        by (rule le_roundHalfEven)
      then show ?thesis
        unfolding roundMagnitude_def by (intro mult_right_mono) (simp_all add: less_imp_le of_int_le_iff del: of_int_power of_int_numeral)
    qed
    finally show ?thesis .
  qed
qed

lemma pow2_split: "m \<le> n \<Longrightarrow> (2 :: rat) powi n = of_int (2 ^ nat (n - m)) * 2 powi m"
  using power_int_add [of "2 :: rat" "n - m" m] by (simp add: power_int_def [of _ "n - m"])

lemma roundMagnitude_nonneg: "0 < x \<Longrightarrow> 0 \<le> roundMagnitude x"
  unfolding roundMagnitude_def using le_roundHalfEven [of 0 "x / ulp x"]
  by (simp add: less_imp_le)

lemma fround_mono: "x \<le> y \<Longrightarrow> fround x \<le> fround y"
  using roundMagnitude_mono [of x y] roundMagnitude_mono [of "- y" "- x"]
    roundMagnitude_nonneg [of y] roundMagnitude_nonneg [of "- x"]
  by (auto simp: fround_def)

text \<open>The finite values of the format: 53-bit integers scaled by a power of two.\<close>

definition representable :: "rat \<Rightarrow> bool" where
  "representable x \<longleftrightarrow> (\<exists>k j. x = of_int k * 2 powi j \<and> \<bar>k\<bar> \<le> 2 ^ 53 \<and> -1074 \<le> j)"

lemma representableI: "\<bar>k\<bar> \<le> 2 ^ 53 \<Longrightarrow> -1074 \<le> j \<Longrightarrow> representable (of_int k * 2 powi j)"
  by (auto simp: representable_def)

lemma representable_int: "\<bar>k\<bar> \<le> 2 ^ 53 \<Longrightarrow> representable (of_int k)"
  using representableI [of k 0] by simp

lemma representable_minus: "representable (- x) \<longleftrightarrow> representable x"
proof -
  have "representable y \<Longrightarrow> representable (- y)" for y
  proof -
    assume "representable y"
    then obtain k j where "y = of_int k * 2 powi j" "\<bar>k\<bar> \<le> 2 ^ 53" "-1074 \<le> j" by (auto simp: representable_def)
    then show ?thesis using representableI [of "- k" j] by simp
  qed
  from this [of x] this [of "- x"] show ?thesis by auto
qed

lemma roundMagnitude_representable:
  assumes "0 < x"
  shows "representable (roundMagnitude x)"
  unfolding roundMagnitude_def ulp_def
proof (rule representableI)
  let ?E = "max (binade x) (-1022)"
  have "x < 2 powi (?E + 1)"
    using binade_bounds(2) [OF assms] pow2_mono [of "binade x + 1" "?E + 1"] by simp
  then have "x / 2 powi (?E - 52) \<le> of_int (2 ^ 53)"
    unfolding ulp_scale(1) [symmetric] by (simp add: divide_le_eq)
  then have "roundHalfEven (x / 2 powi (?E - 52)) \<le> 2 ^ 53" by (rule roundHalfEven_le)
  moreover have "0 \<le> roundHalfEven (x / 2 powi (?E - 52))"
    using assms by (intro le_roundHalfEven) simp
  ultimately show "\<bar>roundHalfEven (x / 2 powi (?E - 52))\<bar> \<le> 2 ^ 53" by simp
qed simp

lemma fround_representable: "representable (fround x)"
  using roundMagnitude_representable [of x] roundMagnitude_representable [of "- x"] representable_int [of 0]
  by (simp add: fround_def representable_minus)

lemma representable_grid:
  assumes "0 < x" and "representable x"
  shows "\<exists>i. x = of_int i * ulp x"
proof -
  from assms(2) obtain k j where x: "x = of_int k * 2 powi j" and k: "\<bar>k\<bar> \<le> 2 ^ 53" and j: "-1074 \<le> j"
    by (auto simp: representable_def)
  let ?E = "max (binade x) (-1022)"
  show ?thesis
  proof (cases "k = 2 ^ 53")
    case True
    then have x': "x = 2 powi (j + 53)" by (simp add: x power_int_add)
    have "binade x \<le> j + 53" by (rule binade_le [OF assms(1)]) (simp add: x' power_int_add)
    with j have "?E - 52 \<le> j + 53" by simp
    then show ?thesis unfolding ulp_def x' by (blast intro: pow2_split)
  next
    case False
    with k have "rat_of_int k < of_int (2 ^ 53)" by (simp only: of_int_less_iff)
    then have "x < of_int (2 ^ 53) * 2 powi j" unfolding x by (rule mult_strict_right_mono) simp
    then have "binade x \<le> j + 52" by (intro binade_le [OF assms(1)]) (simp add: power_int_add)
    with j have "?E - 52 \<le> j" by simp
    then have "of_int k * 2 powi j = of_int (k * 2 ^ nat (j - (?E - 52))) * ulp x"
      unfolding ulp_def by (simp add: mult.assoc pow2_split)
    with x show ?thesis by metis
  qed
qed

lemma roundMagnitude_fixed:
  assumes "0 < x" and "representable x"
  shows "roundMagnitude x = x"
proof -
  obtain i where i: "x = of_int i * ulp x" using representable_grid [OF assms] by blast
  then have "x / ulp x = of_int i" by (metis nonzero_mult_div_cancel_right ulp_pos(2))
  then show ?thesis by (simp add: roundMagnitude_def i [symmetric])
qed

text \<open>The rounding is to nearest: no value of the format is closer.\<close>

lemma roundHalfEven_nearest: "\<bar>of_int (roundHalfEven q) - q\<bar> \<le> \<bar>of_int i - q\<bar>"
proof -
  have "i \<le> \<lfloor>q\<rfloor> \<or> \<lfloor>q\<rfloor> + 1 \<le> i" by linarith
  then have "of_int i \<le> rat_of_int \<lfloor>q\<rfloor> \<or> rat_of_int \<lfloor>q\<rfloor> + 1 \<le> of_int i"
    by (metis of_int_le_iff of_int_add of_int_1)
  moreover have "of_int \<lfloor>q\<rfloor> \<le> q" "q < of_int \<lfloor>q\<rfloor> + 1" by linarith+
  ultimately show ?thesis unfolding roundHalfEven_def Let_def by (auto; linarith)
qed

lemma roundMagnitude_grid: "\<bar>roundMagnitude x - x\<bar> \<le> \<bar>of_int i * ulp x - x\<bar>"
proof -
  have "\<bar>of_int (roundHalfEven (x / ulp x)) - x / ulp x\<bar> * \<bar>ulp x\<bar> \<le> \<bar>of_int i - x / ulp x\<bar> * \<bar>ulp x\<bar>"
    by (intro mult_right_mono roundHalfEven_nearest) simp
  then show ?thesis
    unfolding abs_mult [symmetric] by (simp add: roundMagnitude_def left_diff_distrib)
qed

lemma roundMagnitude_nearest:
  assumes "0 < x" and "representable y"
  shows "\<bar>roundMagnitude x - x\<bar> \<le> \<bar>y - x\<bar>"
proof (cases "0 < y")
  case False
  then have "\<bar>of_int 0 * ulp x - x\<bar> \<le> \<bar>y - x\<bar>" using assms by simp
  with roundMagnitude_grid show ?thesis by (rule order_trans)
next
  case True
  then obtain i where i: "y = of_int i * ulp y" using representable_grid assms(2) by blast
  let ?E = "max (binade x) (-1022)" and ?F = "max (binade y) (-1022)"
  show ?thesis
  proof (cases "?E \<le> ?F")
    case True
    then have "ulp y = of_int (2 ^ nat (?F - ?E)) * ulp x"
      unfolding ulp_def using pow2_split [of "?E - 52" "?F - 52"] by simp
    then have "y = of_int (i * 2 ^ nat (?F - ?E)) * ulp x" using i by (simp add: mult.assoc)
    with roundMagnitude_grid show ?thesis by metis
  next
    case False
    then have E: "?E = binade x" "binade y + 1 \<le> binade x" by auto
    have "y \<le> 2 powi binade x" using binade_bounds(2) [OF \<open>0 < y\<close>] pow2_mono [OF E(2)] by linarith
    moreover have "2 powi binade x = of_int (2 ^ 52) * ulp x" by (simp only: ulp_def E(1) ulp_scale)
    ultimately have "\<bar>of_int (2 ^ 52) * ulp x - x\<bar> \<le> \<bar>y - x\<bar>" using binade_bounds(1) [OF assms(1)] by linarith
    with roundMagnitude_grid show ?thesis by (rule order_trans)
  qed
qed

lemma fround_nearest:
  assumes "representable y"
  shows "\<bar>fround x - x\<bar> \<le> \<bar>y - x\<bar>"
proof (cases x "0 :: rat" rule: linorder_cases)
  case less
  have "representable (- y)" using assms by (simp only: representable_minus)
  with less roundMagnitude_nearest [of "- x" "- y"] have "\<bar>roundMagnitude (- x) - - x\<bar> \<le> \<bar>- y - - x\<bar>" by simp
  moreover have "fround x = - roundMagnitude (- x)" using less by (simp add: fround_def)
  ultimately show ?thesis by linarith
next
  case greater
  with assms roundMagnitude_nearest [of x y] show ?thesis by (simp add: fround_def)
qed (simp add: fround_def)

lemma roundMagnitude_error:
  assumes "0 < x" and "x \<le> 2 powi (e + 1)" and "-1022 \<le> e"
  shows "\<bar>roundMagnitude x - x\<bar> \<le> 2 powi (e - 53)"
proof -
  have "\<bar>of_int (roundHalfEven (x / ulp x)) - x / ulp x\<bar> \<le> 1 / 2"
    using roundHalfEven_bounds [of "x / ulp x"] unfolding abs_le_iff by linarith
  then have "\<bar>of_int (roundHalfEven (x / ulp x)) - x / ulp x\<bar> * ulp x \<le> 1 / 2 * ulp x"
    by (rule mult_right_mono) (simp add: less_imp_le)
  moreover have "roundMagnitude x - x = (of_int (roundHalfEven (x / ulp x)) - x / ulp x) * ulp x"
    by (simp add: roundMagnitude_def left_diff_distrib)
  ultimately have half: "\<bar>roundMagnitude x - x\<bar> \<le> ulp x / 2"
    by (simp add: abs_mult abs_of_pos [OF ulp_pos(1)])
  show ?thesis
  proof (cases "x = 2 powi (e + 1)")
    case True
    with assms representableI [of 1 "e + 1"] have "representable x" by simp
    with assms show ?thesis by (simp add: roundMagnitude_fixed less_imp_le)
  next
    case False
    with assms have "binade x \<le> e" by (intro binade_le) auto
    with assms(3) have "ulp x \<le> 2 powi (e - 52)" unfolding ulp_def by (intro pow2_mono) simp
    also have "\<dots> / 2 = 2 powi (e - 53)" by (simp add: power_int_diff)
    finally show ?thesis using half by (simp add: power_int_diff)
  qed
qed

text \<open>A bound on the rounding error of coordinates.\<close>

definition eps :: rat where
  "eps = 1 / 10 ^ 12"

lemma eps_bounds: "0 < eps" "eps \<le> 1 / 1000000000"
  by (simp_all add: eps_def)

lemma fround_error:
  assumes "\<bar>x\<bar> \<le> 1024"
  shows "\<bar>fround x - x\<bar> \<le> eps"
proof -
  have pow: "(2 :: rat) powi (9 + 1) = 1024" "(2 :: rat) powi (9 - 53) \<le> 1 / 10 ^ 12"
    by (simp_all add: power_int_def power_one_over)
  have err: "\<bar>roundMagnitude y - y\<bar> \<le> 1 / 10 ^ 12" if "0 < y" "y \<le> 1024" for y
    using roundMagnitude_error [of y 9] that pow by auto
  have "\<bar>- roundMagnitude (- x) - x\<bar> = \<bar>roundMagnitude (- x) + x\<bar>" by linarith
  then show ?thesis
    using err [of x] err [of "- x"] assms
    by (cases x "0 :: rat" rule: linorder_cases) (simp_all add: fround_def eps_def)
qed

section \<open>Roundings\<close>

text \<open>What reasoning about rounded arithmetic rests on, whatever the format.\<close>

locale rounding =
  fixes rnd :: "'a :: linordered_idom \<Rightarrow> 'a" and exact :: "'a \<Rightarrow> bool"
  assumes mono: "x \<le> y \<Longrightarrow> rnd x \<le> rnd y"
    and nearest: "exact y \<Longrightarrow> \<bar>rnd x - x\<bar> \<le> \<bar>y - x\<bar>"
    and closed: "exact (rnd x)"
begin

lemma fixed: "exact x \<Longrightarrow> rnd x = x"
  using nearest [of x x] by simp

lemma idem: "rnd (rnd x) = rnd x"
  by (rule fixed) (rule closed)

lemma below: "x \<le> b \<Longrightarrow> exact b \<Longrightarrow> rnd x \<le> b"
  using mono [of x b] by (simp add: fixed)

lemma above: "a \<le> x \<Longrightarrow> exact a \<Longrightarrow> a \<le> rnd x"
  using mono [of a x] by (simp add: fixed)

text \<open>A quotient of ordered operands stays at most one, and so does a fraction of a length.\<close>

lemma fraction_of:
  assumes "0 \<le> q" "q \<le> 1" "exact 0" "exact 1" "exact len" "0 \<le> len"
  shows "0 \<le> rnd (rnd q * len)" "rnd (rnd q * len) \<le> len"
proof -
  have "0 \<le> rnd q" "rnd q \<le> 1" using assms by (auto intro: above below)
  then have "0 \<le> rnd q * len" "rnd q * len \<le> len"
    using assms by (simp_all add: mult_left_le_one_le)
  then show "0 \<le> rnd (rnd q * len)" "rnd (rnd q * len) \<le> len" using assms by (auto intro: above below)
qed

end

interpretation ieee: rounding fround representable
  by unfold_locales (simp_all add: fround_mono fround_nearest fround_representable)

lemma representable_nat: "n \<le> 2 ^ 53 \<Longrightarrow> representable (of_nat n)"
  using representable_int [of "int n"] by (simp add: of_nat_le_numeral_power_cancel_iff flip: of_nat_power)

lemma ofRat_finite: "\<not> 2 ^ 1024 \<le> \<bar>fround x\<bar> \<Longrightarrow> ofRat x = Fin (fround x)"
  by (simp only: ofRat_def Let_def if_False)

lemma ofRat_small:
  assumes "\<bar>x\<bar> \<le> 2 ^ 53"
  shows "ofRat x = Fin (fround x)"
proof -
  have big: "representable (2 ^ 53)" "representable (- (2 ^ 53))"
    using representable_int [of "2 ^ 53"] representable_int [of "- (2 ^ 53)"] by simp_all
  from assms have "- (2 ^ 53) \<le> x" "x \<le> 2 ^ 53" by linarith+
  then have "- (2 ^ 53) \<le> fround x" "fround x \<le> 2 ^ 53"
    using big by (blast intro: ieee.above ieee.below)+
  moreover have "(2 :: rat) ^ 53 < 2 ^ 1024" by (rule power_strict_increasing) simp_all
  ultimately have "\<bar>fround x\<bar> < 2 ^ 1024" by (simp only: abs_less_iff) linarith
  then show ?thesis by (intro ofRat_finite) (simp only: not_le)
qed

lemma scaled_finite:
  assumes "0 \<le> k" "k < 2 ^ 53" "j \<le> 971"
  shows "of_int k * 2 powi j < (2 :: rat) ^ 1024"
proof -
  have "rat_of_int k < of_int (2 ^ 53)" using assms by (simp only: of_int_less_iff)
  then have "of_int k * 2 powi j < of_int (2 ^ 53) * (2 :: rat) powi j" by (rule mult_strict_right_mono) simp
  also have "\<dots> \<le> of_int (2 ^ 53) * 2 powi 971" using assms(3) by (intro mult_left_mono pow2_mono) simp_all
  also have "\<dots> = 2 ^ 53 * 2 ^ 971" by (simp only: of_int_power of_int_numeral power_int_numeral)
  also have "\<dots> = 2 ^ (53 + 971)" by (rule power_add [symmetric])
  also have "\<dots> = 2 ^ 1024" by (simp only: numeral_plus_numeral add_num_simps)
  finally show ?thesis .
qed

text \<open>A pattern that is above zero and no infinity is a positive value of the format.\<close>

lemma ofBits_positive:
  assumes "aboveZero v" and "\<not> math_IsInf v"
  shows "\<exists>x. ofBits v = Fin x \<and> 0 < x \<and> x < 2 ^ 1024 \<and> representable x"
proof (cases "exponent v = 0")
  case True
  with assms have "ofBits v = Fin (of_int (int (fraction v)) * 2 powi (-1074))"
    "0 < rat_of_int (int (fraction v))"
    by (simp_all add: aboveZero_def math_IsInf_def math_IsNaN_def ofBits_def)
  moreover have "representable (of_int (int (fraction v)) * 2 powi (-1074))"
    "of_int (int (fraction v)) * 2 powi (-1074) < (2 :: rat) ^ 1024"
    using float_parts(2) [of v] by (intro representableI scaled_finite; simp)+
  ultimately show ?thesis by (blast intro: mult_pos_pos pow2_pos)
next
  case False
  with assms have "ofBits v = Fin (of_int (2 ^ 52 + int (fraction v)) * 2 powi (int (exponent v) - 1075))"
    "exponent v \<noteq> 2047"
    by (auto simp: aboveZero_def math_IsInf_def math_IsNaN_def ofBits_def)
  moreover from this(2) have "representable (of_int (2 ^ 52 + int (fraction v)) * 2 powi (int (exponent v) - 1075))"
    "of_int (2 ^ 52 + int (fraction v)) * 2 powi (int (exponent v) - 1075) < (2 :: rat) ^ 1024"
    using float_parts [of v] False by (intro representableI scaled_finite; simp)+
  moreover have "0 < rat_of_int (2 ^ 52 + int (fraction v))" by (simp add: add_pos_nonneg)
  ultimately show ?thesis by (blast intro: mult_pos_pos pow2_pos)
qed

end
