(* ===== verification/Bench_Charts.thy ===== *)
theory Bench_Charts
  imports Go_Float "HOL-Library.Multiset"
begin

text \<open>
  The benchmark chart generator, \<^verbatim>\<open>internal/testutil/cmd/benchcharts/main.go\<close>, up to the point
  where drawing starts: the dataset, its validation and the ordering of the cases. A
  \<open>float64\<close> measurement is its 64-bit pattern and an \<open>int\<close> a 64-bit word read as signed, since
  validation asks about infinities and the ordering subtracts; a chart holds the values. The theory shows what a valid dataset is
  and that the subtracting comparison cannot overflow on one.
\<close>

section \<open>Data\<close>

record environment =
  Host :: string
  OS :: string
  Architecture :: string
  LogicalCPUs :: "64 word"
  GoVersion :: string
  CGOCompiler :: string

record backendStrings =
  strings_CGO :: string
  strings_NoCGO :: string

record methodology =
  RunCount :: "64 word"
  Benchtime :: string
  Commands :: backendStrings
  RawResults :: backendStrings
  RSSCommands :: backendStrings
  SizeCommands :: backendStrings

record units =
  unit_Latency :: string
  unit_AllocatedBytes :: string
  unit_ColdRSS :: string
  unit_BinarySize :: string

record benchmarkMedian =
  Latency :: "64 word"
  AllocatedBytes :: "64 word"

record complexityCase =
  case_ID :: string
  Label :: string
  Order :: "64 word"
  case_CGO :: benchmarkMedian
  case_NoCGO :: benchmarkMedian

record footprintMedian =
  ColdRSS :: "64 word"
  BinarySize :: "64 word"

record footprint =
  Workload :: string
  foot_RunCount :: "64 word"
  foot_RawResults :: backendStrings
  foot_CGO :: footprintMedian
  foot_NoCGO :: footprintMedian

record dataset =
  SchemaVersion :: "64 word"
  MeasurementDate :: string
  Environment :: environment
  Methodology :: methodology
  Units :: units
  Cases :: "complexityCase list"
  Footprint :: footprint

record chartCase =
  chart_label :: string
  chart_cgo :: float64
  chart_noCGO :: float64

text \<open>The errors of \<open>validate\<close>, one per message; one message quotes a case identifier.\<close>

datatype datasetError =
    ErrSchemaVersion | ErrMetadata | ErrRunCounts | ErrCommands | ErrRawResults
  | ErrLatencyUnit | ErrAllocationUnit | ErrFootprintUnits | ErrNoCases
  | ErrCaseFields | ErrCaseOrder | ErrCaseIDs | ErrCaseMeasurements string | ErrFootprint

section \<open>The code\<close>

definition complete :: "backendStrings \<Rightarrow> bool" where
  "complete s = (strings_CGO s \<noteq> '''' \<and> strings_NoCGO s \<noteq> '''')"

definition positiveFinite :: "64 word \<Rightarrow> bool" where
  "positiveFinite v = (aboveZero v \<and> \<not> math_IsInf v \<and> \<not> math_IsNaN v)"

text \<open>The loop of \<open>validate\<close> over the cases, with the orders and identifiers seen so far.\<close>

fun validateCases ::
    "64 word set \<Rightarrow> string set \<Rightarrow> complexityCase list \<Rightarrow> datasetError option" where
  "validateCases orders ids [] = None"
| "validateCases orders ids (benchmarkCase # rest) =
     (if case_ID benchmarkCase = '''' \<or> Label benchmarkCase = '''' \<or> sint (Order benchmarkCase) < 1
      then Some ErrCaseFields
      else if Order benchmarkCase \<in> orders then Some ErrCaseOrder
      else if case_ID benchmarkCase \<in> ids then Some ErrCaseIDs
      else if \<not> positiveFinite (Latency (case_CGO benchmarkCase)) \<or>
              \<not> positiveFinite (Latency (case_NoCGO benchmarkCase)) \<or>
              \<not> positiveFinite (AllocatedBytes (case_CGO benchmarkCase)) \<or>
              \<not> positiveFinite (AllocatedBytes (case_NoCGO benchmarkCase))
      then Some (ErrCaseMeasurements (case_ID benchmarkCase))
      else validateCases (insert (Order benchmarkCase) orders) (insert (case_ID benchmarkCase) ids) rest)"

definition dataset_validate :: "dataset \<Rightarrow> datasetError option" where
  "dataset_validate input =
     (if sint (SchemaVersion input) \<noteq> 1 then Some ErrSchemaVersion
      else if MeasurementDate input = '''' \<or> Host (Environment input) = '''' \<or> OS (Environment input) = '''' \<or>
              Architecture (Environment input) = '''' \<or> sint (LogicalCPUs (Environment input)) < 1 \<or>
              GoVersion (Environment input) = '''' \<or> CGOCompiler (Environment input) = ''''
      then Some ErrMetadata
      else if sint (RunCount (Methodology input)) < 5 \<or> sint (foot_RunCount (Footprint input)) < 5
      then Some ErrRunCounts
      else if Benchtime (Methodology input) = '''' \<or> \<not> complete (Commands (Methodology input)) \<or>
              \<not> complete (RSSCommands (Methodology input)) \<or> \<not> complete (SizeCommands (Methodology input))
      then Some ErrCommands
      else if \<not> complete (RawResults (Methodology input)) \<or> \<not> complete (foot_RawResults (Footprint input))
      then Some ErrRawResults
      else if unit_Latency (Units input) \<noteq> ''ns/op'' then Some ErrLatencyUnit
      else if unit_AllocatedBytes (Units input) \<noteq> ''B/op'' then Some ErrAllocationUnit
      else if unit_ColdRSS (Units input) \<noteq> ''bytes'' \<or> unit_BinarySize (Units input) \<noteq> ''bytes''
      then Some ErrFootprintUnits
      else if length (Cases input) = 0 then Some ErrNoCases
      else case validateCases {} {} (Cases input) of
             Some err \<Rightarrow> Some err
           | None \<Rightarrow>
               if Workload (Footprint input) = '''' \<or> \<not> positiveFinite (ColdRSS (foot_CGO (Footprint input))) \<or>
                  \<not> positiveFinite (ColdRSS (foot_NoCGO (Footprint input))) \<or>
                  \<not> positiveFinite (BinarySize (foot_CGO (Footprint input))) \<or>
                  \<not> positiveFinite (BinarySize (foot_NoCGO (Footprint input)))
               then Some ErrFootprint
               else None)"

text \<open>The comparison function of \<open>renderCharts\<close>: an \<open>int\<close> subtraction that wraps.\<close>

definition compareOrder :: "complexityCase \<Rightarrow> complexityCase \<Rightarrow> 64 word" where
  "compareOrder left right = Order left - Order right"

text \<open>
  \<open>slices.SortFunc\<close>: ascending by the comparison function, a negative answer meaning less. It
  promises nothing about the order of elements that compare equal; the model inserts them in
  front.
\<close>

fun insertFunc :: "('a \<Rightarrow> 'a \<Rightarrow> 64 word) \<Rightarrow> 'a \<Rightarrow> 'a list \<Rightarrow> 'a list" where
  "insertFunc cmp x [] = [x]"
| "insertFunc cmp x (y # ys) =
     (if sint (cmp y x) < 0 then y # insertFunc cmp x ys else x # y # ys)"

fun SortFunc :: "('a \<Rightarrow> 'a \<Rightarrow> 64 word) \<Rightarrow> 'a list \<Rightarrow> 'a list" where
  "SortFunc cmp [] = []"
| "SortFunc cmp (x # xs) = insertFunc cmp x (SortFunc cmp xs)"

text \<open>The two series \<open>renderCharts\<close> builds from the sorted cases.\<close>

definition chartSeries :: "dataset \<Rightarrow> datasetError + (chartCase list \<times> chartCase list)" where
  "chartSeries input =
     (case dataset_validate input of
        Some err \<Rightarrow> Inl err
      | None \<Rightarrow>
          let cases = SortFunc compareOrder (Cases input)
          in Inr (map (\<lambda>c. \<lparr>chart_label = Label c, chart_cgo = ofBits (Latency (case_CGO c)),
                           chart_noCGO = ofBits (Latency (case_NoCGO c))\<rparr>) cases,
                  map (\<lambda>c. \<lparr>chart_label = Label c, chart_cgo = ofBits (AllocatedBytes (case_CGO c)),
                           chart_noCGO = ofBits (AllocatedBytes (case_NoCGO c))\<rparr>) cases))"

section \<open>Measurements\<close>

text \<open>
  A measurement passes exactly when its bit pattern lies strictly between positive zero and
  positive infinity: zeros, negatives, infinities and NaNs are refused, subnormals are not.
\<close>

lemma positiveFinite_iff:
  "positiveFinite v \<longleftrightarrow> 0 < unat v \<and> unat v < 0x7FF0000000000000"
proof -
  have split: "unat v = (if negative v then 2 ^ 63 else 0) + exponent v * 2 ^ 52 + fraction v"
    by (rule float_split)
  have parts: "exponent v < 2048" "fraction v < 2 ^ 52" by (rule float_parts)+
  show ?thesis
  proof (cases "negative v")
    case True
    with split show ?thesis by (simp add: positiveFinite_def aboveZero_def)
  next
    case False
    have "positiveFinite v \<longleftrightarrow> exponent v \<noteq> 2047 \<and> (exponent v \<noteq> 0 \<or> fraction v \<noteq> 0)"
      using False by (auto simp: positiveFinite_def aboveZero_def math_IsNaN_def math_IsInf_def)
    also have "\<dots> \<longleftrightarrow> 0 < unat v \<and> unat v < 0x7FF0000000000000"
    proof (cases "exponent v = 2047")
      case True
      with False split show ?thesis by simp
    next
      case other: False
      with parts have "exponent v \<le> 2046" by simp
      then have "exponent v * 2 ^ 52 \<le> 2046 * 2 ^ 52" by (rule mult_right_mono) simp
      with parts have "exponent v * 2 ^ 52 + fraction v < 0x7FF0000000000000" by simp
      with False other split show ?thesis by auto
    qed
    finally show ?thesis .
  qed
qed

section \<open>The ordering\<close>

text \<open>Between positive orders the subtraction cannot wrap, so its sign is the comparison.\<close>

lemma compare_positive:
  fixes a b :: "64 word"
  assumes "1 \<le> sint a" and "1 \<le> sint b"
  shows "sint (a - b) < 0 \<longleftrightarrow> sint a < sint b"
proof -
  have "sint a < 2 ^ 63" "sint b < 2 ^ 63"
    using sint_less [of a] sint_less [of b] by simp_all
  with assms have "sint (a - b) = sint a - sint b"
    by (simp add: sint_word_ariths signed_take_bit_int_eq_self)
  then show ?thesis by simp
qed

definition positiveOrders :: "complexityCase list \<Rightarrow> bool" where
  "positiveOrders cs = list_all (\<lambda>c. 1 \<le> sint (Order c)) cs"

lemma insertFunc_mset: "mset (insertFunc cmp x ys) = add_mset x (mset ys)"
  by (induction ys) auto

lemma SortFunc_mset: "mset (SortFunc cmp xs) = mset xs"
  by (induction xs) (simp_all add: insertFunc_mset)

lemma insertFunc_set: "set (insertFunc cmp x ys) = insert x (set ys)"
  by (metis insertFunc_mset mset.simps(2) set_mset_mset list.simps(15))

lemma SortFunc_set: "set (SortFunc cmp xs) = set xs"
  using SortFunc_mset set_mset_mset by metis

lemma insertFunc_sorted:
  assumes "sorted (map (\<lambda>c. sint (Order c)) ys)" and "positiveOrders (x # ys)"
  shows "sorted (map (\<lambda>c. sint (Order c)) (insertFunc compareOrder x ys))"
  using assms
  by (induction ys)
     (auto simp: positiveOrders_def compareOrder_def compare_positive insertFunc_set)

lemma SortFunc_sorted:
  "positiveOrders cs \<Longrightarrow> sorted (map (\<lambda>c. sint (Order c)) (SortFunc compareOrder cs))"
proof (induction cs)
  case (Cons c cs)
  then show ?case
    by (auto simp: positiveOrders_def list_all_iff SortFunc_set intro!: insertFunc_sorted)
qed simp

section \<open>Valid cases\<close>

definition validCase :: "complexityCase \<Rightarrow> bool" where
  "validCase c =
     (case_ID c \<noteq> '''' \<and> Label c \<noteq> '''' \<and> 1 \<le> sint (Order c) \<and>
      positiveFinite (Latency (case_CGO c)) \<and> positiveFinite (Latency (case_NoCGO c)) \<and>
      positiveFinite (AllocatedBytes (case_CGO c)) \<and> positiveFinite (AllocatedBytes (case_NoCGO c)))"

lemma validateCases_None:
  "validateCases orders ids cs = None \<longleftrightarrow>
     list_all validCase cs \<and> distinct (map Order cs) \<and> distinct (map case_ID cs) \<and>
     set (map Order cs) \<inter> orders = {} \<and> set (map case_ID cs) \<inter> ids = {}"
  by (induction orders ids cs rule: validateCases.induct) (auto simp: validCase_def)

section \<open>Properties\<close>

text \<open>
  C34: for a dataset that validates, both chart series list every case of the dataset exactly
  once, in strictly increasing order of the case numbers, although the comparison subtracts
  64-bit integers: validated orders are positive, so no difference overflows.
\<close>

theorem chart_series_ordered:
  assumes "dataset_validate input = None"
  shows "\<exists>cs. mset cs = mset (Cases input) \<and> sorted_wrt (\<lambda>c d. sint (Order c) < sint (Order d)) cs \<and>
     chartSeries input =
       Inr (map (\<lambda>c. \<lparr>chart_label = Label c, chart_cgo = ofBits (Latency (case_CGO c)), chart_noCGO = ofBits (Latency (case_NoCGO c))\<rparr>) cs,
            map (\<lambda>c. \<lparr>chart_label = Label c, chart_cgo = ofBits (AllocatedBytes (case_CGO c)),
                      chart_noCGO = ofBits (AllocatedBytes (case_NoCGO c))\<rparr>) cs)"
proof (intro exI conjI)
  let ?cs = "SortFunc compareOrder (Cases input)"
  have "validateCases {} {} (Cases input) = None"
    using assms by (auto simp: dataset_validate_def split: if_splits option.splits)
  then have valid: "list_all validCase (Cases input)" "distinct (map Order (Cases input))"
    by (simp_all add: validateCases_None)
  then have "positiveOrders (Cases input)" by (auto simp: positiveOrders_def validCase_def list_all_iff)
  then have sorted: "sorted (map (\<lambda>c. sint (Order c)) ?cs)" by (rule SortFunc_sorted)
  have "distinct (map Order ?cs)"
    using valid(2) by (metis SortFunc_mset mset_eq_imp_distinct_iff mset_map)
  then have "distinct (map (\<lambda>c. sint (Order c)) ?cs)"
    by (auto simp: distinct_map inj_on_def dest: signed_word_eqI)
  with sorted have "sorted_wrt (<) (map (\<lambda>c. sint (Order c)) ?cs)" by (simp add: strict_sorted_iff)
  then show "sorted_wrt (\<lambda>c d. sint (Order c) < sint (Order d)) ?cs" by (simp add: sorted_wrt_map)
  show "mset ?cs = mset (Cases input)" by (rule SortFunc_mset)
qed (use assms in \<open>simp add: chartSeries_def Let_def\<close>)

text \<open>A dataset with two cases out of order; the measurements are the pattern of 1.0.\<close>

definition sampleCase :: "string \<Rightarrow> 64 word \<Rightarrow> complexityCase" where
  "sampleCase name n =
     \<lparr>case_ID = name, Label = name, Order = n,
      case_CGO = \<lparr>Latency = 0x3FF0000000000000, AllocatedBytes = 0x3FF0000000000000\<rparr>,
      case_NoCGO = \<lparr>Latency = 0x3FF0000000000000, AllocatedBytes = 0x3FF0000000000000\<rparr>\<rparr>"

definition sampleDataset :: dataset where
  "sampleDataset =
     (let both = \<lparr>strings_CGO = ''a'', strings_NoCGO = ''b''\<rparr>;
          size = \<lparr>ColdRSS = 0x3FF0000000000000, BinarySize = 0x3FF0000000000000\<rparr> in
      \<lparr>SchemaVersion = 1, MeasurementDate = ''2026-09-14'',
       Environment = \<lparr>Host = ''h'', OS = ''linux'', Architecture = ''amd64'', LogicalCPUs = 8,
         GoVersion = ''go1.25'', CGOCompiler = ''gcc''\<rparr>,
       Methodology = \<lparr>RunCount = 5, Benchtime = ''1s'', Commands = both, RawResults = both,
         RSSCommands = both, SizeCommands = both\<rparr>,
       Units = \<lparr>unit_Latency = ''ns/op'', unit_AllocatedBytes = ''B/op'', unit_ColdRSS = ''bytes'',
         unit_BinarySize = ''bytes''\<rparr>,
       Cases = [sampleCase ''cte'' 9, sampleCase ''simple'' 2],
       Footprint = \<lparr>Workload = ''probe'', foot_RunCount = 5, foot_RawResults = both,
         foot_CGO = size, foot_NoCGO = size\<rparr>\<rparr>)"

theorem chart_series_ordered_witness:
  "\<exists>cs. mset cs = mset (Cases sampleDataset) \<and> sorted_wrt (\<lambda>c d. sint (Order c) < sint (Order d)) cs \<and>
     map_sum id (map chart_label \<circ> fst) (chartSeries sampleDataset) = Inr [''simple'', ''cte''] \<and>
     map_sum id (map chart_label \<circ> fst) (chartSeries sampleDataset) = Inr (map Label cs)"
proof -
  have one: "positiveFinite 0x3FF0000000000000" by (simp add: positiveFinite_iff)
  have valid: "dataset_validate sampleDataset = None"
    by (simp add: dataset_validate_def sampleDataset_def sampleCase_def complete_def one Let_def)
  from chart_series_ordered [OF valid] obtain cs where cs: "mset cs = mset (Cases sampleDataset)"
      "sorted_wrt (\<lambda>c d. sint (Order c) < sint (Order d)) cs"
      "map_sum id (map chart_label \<circ> fst) (chartSeries sampleDataset) = Inr (map Label cs)"
    by (auto simp: comp_def)
  moreover have "map_sum id (map chart_label \<circ> fst) (chartSeries sampleDataset) = Inr [''simple'', ''cte'']"
    using valid by (simp add: chartSeries_def Let_def)
      (simp add: sampleDataset_def sampleCase_def compareOrder_def Let_def)
  ultimately show ?thesis by blast
qed

end
