(* ===== verification/Go_Xml.thy ===== *)
theory Go_Xml
  imports Guard_Prelude "HOL-Library.Sublist"
begin

text \<open>
  What the chart tool uses of \<^verbatim>\<open>unicode/utf8\<close> and \<^verbatim>\<open>encoding/xml\<close>: decoding one rune of a byte
  string and \<open>xml.EscapeText\<close>. A Go string is a list of bytes, which \<open>char\<close> has exactly. The
  theory shows that escaped text is well-formed character data: valid UTF-8 of XML characters
  without a delimiter, from which an XML reader gets the text back.
\<close>

section \<open>Decoding\<close>

abbreviation byte :: "char \<Rightarrow> nat" where
  "byte c \<equiv> of_char c"

definition between :: "nat \<Rightarrow> nat \<Rightarrow> char \<Rightarrow> bool" where
  "between lo hi c = (lo \<le> byte c \<and> byte c \<le> hi)"

text \<open>The range of the second byte depends on the first: no overlong form, surrogate or rune
  above \<open>0x10FFFF\<close> decodes.\<close>

definition secondByte :: "nat \<Rightarrow> char \<Rightarrow> bool" where
  "secondByte p0 =
     between (if p0 = 0xE0 then 0xA0 else if p0 = 0xF0 then 0x90 else 0x80)
             (if p0 = 0xED then 0x9F else if p0 = 0xF4 then 0x8F else 0xBF)"

definition RuneError :: nat where
  "RuneError = 0xFFFD"

text \<open>\<open>utf8.DecodeRune\<close> of a non-empty string: the rune and the number of bytes it takes.\<close>

definition DecodeRune :: "char \<Rightarrow> string \<Rightarrow> nat \<times> nat" where
  "DecodeRune c s =
     (let p0 = byte c
      in if p0 < 0x80 then (p0, 1)
         else if 0xC2 \<le> p0 \<and> p0 \<le> 0xDF then
           (case s of c1 # _ \<Rightarrow>
              if secondByte p0 c1 then ((p0 mod 32) * 64 + byte c1 mod 64, 2) else (RuneError, 1)
            | _ \<Rightarrow> (RuneError, 1))
         else if 0xE0 \<le> p0 \<and> p0 \<le> 0xEF then
           (case s of c1 # c2 # _ \<Rightarrow>
              if secondByte p0 c1 \<and> between 0x80 0xBF c2
              then ((p0 mod 16) * 4096 + (byte c1 mod 64) * 64 + byte c2 mod 64, 3) else (RuneError, 1)
            | _ \<Rightarrow> (RuneError, 1))
         else if 0xF0 \<le> p0 \<and> p0 \<le> 0xF4 then
           (case s of c1 # c2 # c3 # _ \<Rightarrow>
              if secondByte p0 c1 \<and> between 0x80 0xBF c2 \<and> between 0x80 0xBF c3
              then ((p0 mod 8) * 262144 + (byte c1 mod 64) * 4096 + (byte c2 mod 64) * 64 + byte c3 mod 64, 4)
              else (RuneError, 1)
            | _ \<Rightarrow> (RuneError, 1))
         else (RuneError, 1))"

section \<open>Escaping\<close>

definition isInCharacterRange :: "nat \<Rightarrow> bool" where
  "isInCharacterRange r =
     (r = 0x09 \<or> r = 0x0A \<or> r = 0x0D \<or> 0x20 \<le> r \<and> r \<le> 0xD7FF \<or>
      0xE000 \<le> r \<and> r \<le> 0xFFFD \<or> 0x10000 \<le> r \<and> r \<le> 0x10FFFF)"

definition escFFFD :: string where
  "escFFFD = [CHR 0xEF, CHR 0xBF, CHR 0xBD]"

text \<open>The replacement of a rune that took \<open>width\<close> bytes, or \<open>None\<close> where it is copied.\<close>

definition replacement :: "nat \<Rightarrow> nat \<Rightarrow> string option" where
  "replacement r width =
     (if r = 0x22 then Some ''&#34;''
      else if r = 0x27 then Some ''&#39;''
      else if r = 0x26 then Some ''&amp;''
      else if r = 0x3C then Some ''&lt;''
      else if r = 0x3E then Some ''&gt;''
      else if r = 0x09 then Some ''&#x9;''
      else if r = 0x0A then Some ''&#xA;''
      else if r = 0x0D then Some ''&#xD;''
      else if \<not> isInCharacterRange r \<or> r = RuneError \<and> width = 1 then Some escFFFD
      else None)"

fun EscapeText :: "string \<Rightarrow> string" where
  "EscapeText [] = []"
| "EscapeText (c # s) =
     (let (r, width) = DecodeRune c s
      in (case replacement r width of Some esc \<Rightarrow> esc | None \<Rightarrow> c # take (width - 1) s) @
         EscapeText (drop (width - 1) s))"

section \<open>Reading character data\<close>

text \<open>Text an XML document may hold: valid UTF-8 of characters in the range.\<close>

fun xmlText :: "string \<Rightarrow> bool" where
  "xmlText [] = True"
| "xmlText (c # s) =
     (let (r, width) = DecodeRune c s
      in isInCharacterRange r \<and> \<not> (r = RuneError \<and> width = 1) \<and> xmlText (drop (width - 1) s))"

definition references :: "(string \<times> char) list" where
  "references =
     [(''#34;'', CHR 0x22), (''#39;'', CHR 0x27), (''amp;'', CHR 0x26), (''lt;'', CHR 0x3C),
      (''gt;'', CHR 0x3E), (''#x9;'', CHR 0x09), (''#xA;'', CHR 0x0A), (''#xD;'', CHR 0x0D)]"

text \<open>What a reader makes of the references: the five named and three numeric ones above.\<close>

fun unescape :: "string \<Rightarrow> string" where
  "unescape [] = []"
| "unescape (c # s) =
     (if c = CHR 0x26
      then (case List.find (\<lambda>(name, _). prefix name s) references of
              Some (name, d) \<Rightarrow> d # unescape (drop (length name) s)
            | None \<Rightarrow> c # unescape s)
      else c # unescape s)"

definition delimiters :: "char set" where
  "delimiters = {CHR 0x3C, CHR 0x3E, CHR 0x22, CHR 0x27}"

declare EscapeText.simps [simp del] xmlText.simps [simp del] unescape.simps [simp del]

section \<open>Lemmas\<close>

lemma mod_window:
  fixes p m k :: nat
  assumes "k * m \<le> p" and "p < k * m + m"
  shows "p mod m = p - k * m"
proof -
  have "p = (p - k * m) + k * m" using assms(1) by simp
  then have "p mod m = (p - k * m) mod m" by (metis mod_mult_self1)
  then show ?thesis using assms by simp
qed

lemma two_bytes: "0xC2 \<le> p \<Longrightarrow> p \<le> 0xDF \<Longrightarrow> 0x80 \<le> p mod 32 * 64 + (x :: nat)"
  using mod_window [of 6 32 p] by simp

lemma three_bytes:
  assumes "0xE0 \<le> p" "p \<le> 0xEF" "secondByte p c"
  shows "0x80 \<le> p mod 16 * 4096 + byte c mod 64 * 64 + x"
proof (cases "p = 0xE0")
  case True
  with assms have "0xA0 \<le> byte c" "byte c \<le> 0xBF" by (simp_all add: secondByte_def between_def)
  then have "2 \<le> byte c mod 64" using mod_window [of 2 64 "byte c"] by simp
  then show ?thesis by simp
next
  case False
  with assms have "1 \<le> p mod 16" using mod_window [of 14 16 p] by simp
  then show ?thesis by simp
qed

lemma four_bytes:
  assumes "0xF0 \<le> p" "p \<le> 0xF4" "secondByte p c"
  shows "0x80 \<le> p mod 8 * 262144 + byte c mod 64 * 4096 + x + y"
proof (cases "p = 0xF0")
  case True
  with assms have "0x90 \<le> byte c" "byte c \<le> 0xBF" by (simp_all add: secondByte_def between_def)
  then have "1 \<le> byte c mod 64" using mod_window [of 2 64 "byte c"] by simp
  then show ?thesis by simp
next
  case False
  with assms have "1 \<le> p mod 8" using mod_window [of 30 8 p] by simp
  then show ?thesis by simp
qed

lemma secondByte_high: "secondByte p c \<Longrightarrow> 0x80 \<le> byte c"
  by (auto simp: secondByte_def between_def split: if_splits)

text \<open>A rune is a single ASCII byte, a replaced byte, or a sequence of bytes above ASCII.\<close>

lemma DecodeRune_cases:
  assumes "DecodeRune c s = (r, width)"
  obtains (ascii) "byte c < 0x80" "r = byte c" "width = 1"
  | (invalid) "0x80 \<le> byte c" "r = RuneError" "width = 1"
  | (multi) "0x80 \<le> byte c" "0x80 \<le> r" "2 \<le> width" "length (take (width - 1) s) = width - 1"
      "\<forall>d \<in> set (take (width - 1) s). 0x80 \<le> byte d"
      "\<And>t. DecodeRune c (take (width - 1) s @ t) = (r, width)"
proof -
  consider "byte c < 0x80" | "0x80 \<le> byte c" "(r, width) = (RuneError, 1)"
    | c1 s' where "0xC2 \<le> byte c" "byte c \<le> 0xDF" "s = c1 # s'" "secondByte (byte c) c1"
        "r = (byte c mod 32) * 64 + byte c1 mod 64" "width = 2"
    | c1 c2 s' where "0xE0 \<le> byte c" "byte c \<le> 0xEF" "s = c1 # c2 # s'" "secondByte (byte c) c1" "between 0x80 0xBF c2"
        "r = (byte c mod 16) * 4096 + (byte c1 mod 64) * 64 + byte c2 mod 64" "width = 3"
    | c1 c2 c3 s' where "0xF0 \<le> byte c" "byte c \<le> 0xF4" "s = c1 # c2 # c3 # s'" "secondByte (byte c) c1"
        "between 0x80 0xBF c2" "between 0x80 0xBF c3"
        "r = (byte c mod 8) * 262144 + (byte c1 mod 64) * 4096 + (byte c2 mod 64) * 64 + byte c3 mod 64" "width = 4"
    using assms unfolding DecodeRune_def Let_def
    by (simp split: if_splits list.splits)
  then show thesis
  proof cases
    case 1
    with assms show ?thesis by (intro ascii) (simp_all add: DecodeRune_def)
  next
    case 2
    then show ?thesis by (intro invalid) simp_all
  next
    case 3
    then show ?thesis
      by (intro multi) (simp_all add: two_bytes secondByte_high DecodeRune_def)
  next
    case 4
    then show ?thesis
      by (intro multi) (simp_all add: three_bytes secondByte_high DecodeRune_def, simp add: between_def)
  next
    case 5
    then show ?thesis
      by (intro multi) (simp_all add: four_bytes secondByte_high DecodeRune_def, simp add: between_def)
  qed
qed

lemma byte_char: "byte c = n \<Longrightarrow> c = char_of n"
  by auto

lemma high_not_delimiter: "0x80 \<le> byte c \<Longrightarrow> c \<notin> delimiters \<and> c \<noteq> CHR 0x26"
  by (auto simp: delimiters_def)

lemma replacement_None:
  assumes "DecodeRune c s = (r, width)" and "replacement r width = None"
  shows "set (c # take (width - 1) s) \<inter> (delimiters \<union> {CHR 0x26}) = {}"
  using assms(1)
proof (cases rule: DecodeRune_cases)
  case ascii
  with assms(2) have "c \<notin> delimiters \<and> c \<noteq> CHR 0x26"
    by (auto simp: delimiters_def replacement_def)
  with ascii show ?thesis by simp
next
  case invalid
  with assms(2) show ?thesis by (simp add: replacement_def RuneError_def)
next
  case multi
  then show ?thesis using high_not_delimiter by fastforce
qed

lemma replacement_free: "replacement r width = Some esc \<Longrightarrow> set esc \<inter> delimiters = {}"
  by (auto simp: replacement_def escFFFD_def delimiters_def split: if_splits)

lemma EscapeText_free: "set (EscapeText s) \<inter> delimiters = {}"
proof (induction s rule: EscapeText.induct)
  case (2 c s)
  obtain r width where rune: "DecodeRune c s = (r, width)" by fastforce
  with 2 have "set (EscapeText (drop (width - 1) s)) \<inter> delimiters = {}" by simp
  with replacement_None [OF rune] replacement_free [of r width] show ?case
    by (auto simp: EscapeText.simps(2) rune split: option.split)
qed (simp add: EscapeText.simps)

text \<open>The first rune of a text is not changed by what follows it.\<close>

lemma xmlText_rune:
  assumes "DecodeRune c s = (r, width)" and "isInCharacterRange r" and "\<not> (r = RuneError \<and> width = 1)"
  shows "xmlText (c # take (width - 1) s @ t) = xmlText t"
  using assms(1)
proof (cases rule: DecodeRune_cases)
  case ascii
  then have "DecodeRune c t = (r, width)" by (simp add: DecodeRune_def)
  with assms ascii show ?thesis by (simp add: xmlText.simps(2))
next
  case multi
  with assms show ?thesis by (simp add: xmlText.simps(2))
qed (use assms in simp)

lemma xmlText_ascii: "byte c < 0x80 \<Longrightarrow> 0x20 \<le> byte c \<Longrightarrow> xmlText (c # t) = xmlText t"
  by (simp add: xmlText.simps(2) DecodeRune_def isInCharacterRange_def RuneError_def)

lemma xmlText_printable: "\<forall>c \<in> set s. 0x20 \<le> byte c \<and> byte c < 0x80 \<Longrightarrow> xmlText (s @ t) = xmlText t"
  by (induction s) (simp_all add: xmlText_ascii)

lemma xmlText_append: "xmlText s \<Longrightarrow> xmlText (s @ t) = xmlText t"
proof (induction s rule: xmlText.induct)
  case (2 c s)
  obtain r width where rune: "DecodeRune c s = (r, width)" by fastforce
  with 2 have ok: "isInCharacterRange r" "\<not> (r = RuneError \<and> width = 1)"
    and IH: "xmlText (drop (width - 1) s @ t) = xmlText t"
    by (simp_all add: xmlText.simps(2))
  have "xmlText (c # s @ t) = xmlText (c # take (width - 1) s @ (drop (width - 1) s @ t))"
    by (simp only: append_assoc [symmetric] append_take_drop_id)
  with xmlText_rune [OF rune ok] IH show ?case by simp
qed simp

lemma xmlText_replacement: "replacement r width = Some esc \<Longrightarrow> xmlText (esc @ t) = xmlText t"
  by (auto simp: replacement_def escFFFD_def xmlText_ascii split: if_splits)
    (auto simp: xmlText.simps(2) DecodeRune_def secondByte_def between_def isInCharacterRange_def RuneError_def)

lemma EscapeText_xmlText: "xmlText (EscapeText s)"
proof (induction s rule: EscapeText.induct)
  case (2 c s)
  obtain r width where rune: "DecodeRune c s = (r, width)" by fastforce
  with 2 have IH: "xmlText (EscapeText (drop (width - 1) s))" by simp
  show ?case
  proof (cases "replacement r width")
    case None
    then have "isInCharacterRange r" "\<not> (r = RuneError \<and> width = 1)"
      by (auto simp: replacement_def split: if_splits)
    from xmlText_rune [OF rune this] rune IH None show ?thesis by (simp add: EscapeText.simps(2))
  next
    case (Some esc)
    with rune IH show ?thesis by (simp add: EscapeText.simps(2) xmlText_replacement)
  qed
qed (simp add: EscapeText.simps xmlText.simps)

lemma unescape_copy: "CHR 0x26 \<notin> set p \<Longrightarrow> unescape (p @ t) = p @ unescape t"
  by (induction p) (auto simp: unescape.simps(2))

lemma unescape_replacement:
  assumes "replacement r width = Some esc" and "esc \<noteq> escFFFD"
  shows "unescape (esc @ t) = char_of r # unescape t"
  using assms by (auto simp: replacement_def unescape.simps(2) references_def char_of_def bit_0 split: if_splits)

lemma unescape_EscapeText: "xmlText s \<Longrightarrow> unescape (EscapeText s) = s"
proof (induction s rule: EscapeText.induct)
  case (2 c s)
  obtain r width where rune: "DecodeRune c s = (r, width)" by fastforce
  with 2 have IH: "unescape (EscapeText (drop (width - 1) s)) = drop (width - 1) s"
    and ok: "isInCharacterRange r" "\<not> (r = RuneError \<and> width = 1)"
    by (simp_all add: xmlText.simps(2))
  show ?case
  proof (cases "replacement r width")
    case None
    with replacement_None [OF rune] have "unescape ((c # take (width - 1) s) @ t) = (c # take (width - 1) s) @ unescape t" for t
      by (intro unescape_copy) auto
    with rune IH None show ?thesis by (simp add: EscapeText.simps(2))
  next
    case (Some esc)
    with ok have "r < 0x80" "esc \<noteq> escFFFD" by (auto simp: replacement_def escFFFD_def split: if_splits)
    from rune this(1) have "r = byte c" "width = 1" by (auto elim!: DecodeRune_cases simp: RuneError_def)
    with rune IH Some unescape_replacement [OF Some \<open>esc \<noteq> escFFFD\<close>] show ?thesis
      by (simp add: EscapeText.simps(2))
  qed
qed (simp add: EscapeText.simps unescape.simps)

end
