(* ===== verification/Bench_Render.thy ===== *)
theory Bench_Render
  imports Bench_Charts Go_Xml
begin

text \<open>
  The drawing half of \<^verbatim>\<open>internal/testutil/cmd/benchcharts/main.go\<close>: the text of the SVG charts.
  A chart is the string the \<open>strings.Builder\<close> holds; every number in it goes through \<open>float64\<close>
  arithmetic, one rounding per operation, and \<^verbatim>\<open>%.1f\<close>, and every text from the dataset through
  \<open>xml.EscapeText\<close>. The theory shows that bars stay inside the plot and inside their group, and
  that no dataset can change the markup of a chart.
\<close>

section \<open>The code\<close>

definition plotTop :: rat where
  "plotTop = 92"

definition plotBottom :: rat where
  "plotBottom = 390"

definition plotLeft :: rat where
  "plotLeft = 92"

definition plotRight :: rat where
  "plotRight = 928"

definition mebibyte :: rat where
  "mebibyte = 1024 * 1024"

definition escape :: "string \<Rightarrow> string" where
  "escape value = EscapeText value"

definition formatValue :: "float64 \<Rightarrow> string \<Rightarrow> nat \<Rightarrow> string" where
  "formatValue value unit precision =
     (if unit = ''ns/op'' \<or> unit = ''B/op'' then formatFixed 0 value else formatFixed precision value)"

definition writeBar ::
    "string \<Rightarrow> float64 \<Rightarrow> float64 \<Rightarrow> float64 \<Rightarrow> float64 \<Rightarrow> string \<Rightarrow> string \<Rightarrow> nat \<Rightarrow> string" where
  \<open>writeBar output x width value maximum color unit precision =
     (let height = fmul (fdiv value maximum) (Fin (plotBottom - plotTop));
          y = fsub (Fin plotBottom) height
      in output @
         ''<rect x="'' @ formatFixed 1 x @ ''" y="'' @ formatFixed 1 y @ ''" width="'' @ formatFixed 1 width @
         ''" height="'' @ formatFixed 1 height @ ''" rx="4" fill="'' @ color @ ''"/>'' @
         ''<text x="'' @ formatFixed 1 (fadd x (fdiv width (Fin 2))) @ ''" y="'' @ formatFixed 1 (fsub y (Fin 8)) @
         ''" text-anchor="middle" fill="#f0f6fc" font-family="system-ui,sans-serif" font-size="12">'' @
         formatValue value unit precision @ ''</text>'')\<close>

text \<open>The loop over the cases, from the given index.\<close>

fun writeGroups ::
    "string \<Rightarrow> nat \<Rightarrow> chartCase list \<Rightarrow> float64 \<Rightarrow> float64 \<Rightarrow> float64 \<Rightarrow> string \<Rightarrow> nat \<Rightarrow> string" where
  \<open>writeGroups output index [] groupWidth barWidth maximum unit precision = output\<close>
| \<open>writeGroups output index (benchmarkCase # rest) groupWidth barWidth maximum unit precision =
     (let center = fadd (Fin plotLeft) (fmul groupWidth (fadd (ofRat (of_nat index)) (Fin (1 / 2))));
          output = writeBar output (fsub (fsub center barWidth) (Fin 3)) barWidth (chart_cgo benchmarkCase)
                     maximum ''#58a6ff'' unit precision;
          output = writeBar output (fadd center (Fin 3)) barWidth (chart_noCGO benchmarkCase)
                     maximum ''#d29922'' unit precision;
          output = output @ ''<text x="'' @ formatFixed 1 center @
            ''" y="420" text-anchor="middle" fill="#c9d1d9" font-family="system-ui,sans-serif" font-size="13">'' @
            escape (chart_label benchmarkCase) @ ''</text>''
      in writeGroups output (Suc index) rest groupWidth barWidth maximum unit precision)\<close>

definition chartMaximum :: "chartCase list \<Rightarrow> float64" where
  "chartMaximum cases = foldl (\<lambda>maximum c. fmax (fmax maximum (chart_cgo c)) (chart_noCGO c)) (Fin 0) cases"

definition middleDot :: string where
  "middleDot = '' '' @ [CHR 0xC2, CHR 0xB7] @ '' ''"

definition chartHead :: "string \<Rightarrow> string \<Rightarrow> string \<Rightarrow> string \<Rightarrow> string" where
  \<open>chartHead title description unit metadata =
     ''<svg xmlns="http://www.w3.org/2000/svg" width="960" height="480" viewBox="0 0 960 480" role="img" aria-labelledby="title desc">'' @
     ''<title id="title">'' @ escape title @ ''</title>'' @
     ''<desc id="desc">'' @ escape (description @ ''. CGO is blue and no-CGO is amber. Values are in '' @ unit @ ''.'') @ ''</desc>'' @
     ''<rect width="960" height="480" rx="16" fill="#0d1117"/>'' @
     ''<text x="40" y="42" fill="#f0f6fc" font-family="system-ui,sans-serif" font-size="24" font-weight="700">'' @ escape title @ ''</text>'' @
     ''<text x="40" y="68" fill="#8b949e" font-family="system-ui,sans-serif" font-size="13">'' @ escape (metadata @ middleDot @ unit) @ ''</text>'' @
     ''<line x1="92" y1="390" x2="928" y2="390" stroke="#30363d"/>'' @
     ''<rect x="730" y="28" width="12" height="12" rx="2" fill="#58a6ff"/><text x="748" y="39" fill="#c9d1d9" font-family="system-ui,sans-serif" font-size="13">CGO</text>'' @
     ''<rect x="805" y="28" width="12" height="12" rx="2" fill="#d29922"/><text x="823" y="39" fill="#c9d1d9" font-family="system-ui,sans-serif" font-size="13">no-CGO</text>''\<close>

definition renderGroupedBars ::
    "string \<Rightarrow> string \<Rightarrow> string \<Rightarrow> string \<Rightarrow> chartCase list \<Rightarrow> nat \<Rightarrow> string" where
  \<open>renderGroupedBars title description unit metadata cases precision =
     (let maximum = fmul (chartMaximum cases) (ofRat (11 / 10));
          output = chartHead title description unit metadata;
          groupWidth = fdiv (Fin (plotRight - plotLeft)) (ofRat (of_nat (length cases)));
          barWidth = math_Min (Fin 70) (fmul groupWidth (ofRat (28 / 100)))
      in writeGroups output 0 cases groupWidth barWidth maximum unit precision @ ''</svg>'')\<close>

definition footprintCase :: "string \<Rightarrow> 64 word \<Rightarrow> 64 word \<Rightarrow> chartCase" where
  "footprintCase workload cgo noCGO =
     \<lparr>chart_label = workload, chart_cgo = fdiv (ofBits cgo) (Fin mebibyte),
      chart_noCGO = fdiv (ofBits noCGO) (Fin mebibyte)\<rparr>"

text \<open>The charts by file name: a Go map literal, as the list of its entries.\<close>

definition renderCharts :: "dataset \<Rightarrow> datasetError + (string \<times> string) list" where
  "renderCharts input =
     (case chartSeries input of
        Inl err \<Rightarrow> Inl err
      | Inr (latency, allocations) \<Rightarrow>
          let hostLine = MeasurementDate input @ middleDot @ Host (Environment input) @ middleDot @
                         GoVersion (Environment input);
              foot = Footprint input
          in Inr
            [(''latency.svg'', renderGroupedBars ''Direct validation latency''
                ''Median execution time; lower is better'' (unit_Latency (Units input)) hostLine latency 1),
             (''allocations.svg'', renderGroupedBars ''Allocated memory''
                ''Median heap bytes per validation; lower is better'' (unit_AllocatedBytes (Units input))
                hostLine allocations 1),
             (''cold-rss.svg'', renderGroupedBars ''Cold-process maximum RSS''
                ''Median of fixed size-probe executions; lower is better'' ''MiB'' hostLine
                [footprintCase (Workload foot) (ColdRSS (foot_CGO foot)) (ColdRSS (foot_NoCGO foot))] 1),
             (''binary-size.svg'', renderGroupedBars ''Stripped linked binary size''
                ''Equivalent size-probe builds; lower is better'' ''MiB'' hostLine
                [footprintCase (Workload foot) (BinarySize (foot_CGO foot)) (BinarySize (foot_NoCGO foot))] 2)])"

section \<open>The picture\<close>

text \<open>
  The geometry of a chart apart from its text: the two bars of every case and the place of
  its label.
\<close>

record bar =
  bar_x :: float64
  bar_y :: float64
  bar_width :: float64
  bar_height :: float64
  bar_value :: float64
  bar_color :: string

record barGroup =
  group_cgo :: bar
  group_noCGO :: bar
  group_center :: float64
  group_label :: string

definition placeBar :: "float64 \<Rightarrow> float64 \<Rightarrow> float64 \<Rightarrow> float64 \<Rightarrow> string \<Rightarrow> bar" where
  "placeBar x width value maximum color =
     (let height = fmul (fdiv value maximum) (Fin 298)
      in \<lparr>bar_x = x, bar_y = fsub (Fin 390) height, bar_width = width, bar_height = height,
          bar_value = value, bar_color = color\<rparr>)"

definition placeGroup :: "float64 \<Rightarrow> float64 \<Rightarrow> float64 \<Rightarrow> nat \<Rightarrow> chartCase \<Rightarrow> barGroup" where
  "placeGroup groupWidth barWidth maximum index c =
     (let center = fadd (Fin 92) (fmul groupWidth (fadd (ofRat (of_nat index)) (Fin (1 / 2))))
      in \<lparr>group_cgo = placeBar (fsub (fsub center barWidth) (Fin 3)) barWidth (chart_cgo c) maximum ''#58a6ff'',
          group_noCGO = placeBar (fadd center (Fin 3)) barWidth (chart_noCGO c) maximum ''#d29922'',
          group_center = center, group_label = chart_label c\<rparr>)"

definition groupWidthOf :: "nat \<Rightarrow> float64" where
  "groupWidthOf n = fdiv (Fin 836) (ofRat (of_nat n))"

definition barWidthOf :: "nat \<Rightarrow> float64" where
  "barWidthOf n = math_Min (Fin 70) (fmul (groupWidthOf n) (ofRat (28 / 100)))"

definition scaleOf :: "chartCase list \<Rightarrow> float64" where
  "scaleOf cases = fmul (chartMaximum cases) (ofRat (11 / 10))"

definition layout :: "chartCase list \<Rightarrow> barGroup list" where
  "layout cases =
     map (\<lambda>(index, c). placeGroup (groupWidthOf (length cases)) (barWidthOf (length cases)) (scaleOf cases) index c)
       (enumerate 0 cases)"

definition drawBar :: "string \<Rightarrow> nat \<Rightarrow> bar \<Rightarrow> string" where
  \<open>drawBar unit precision b =
     ''<rect x="'' @ formatFixed 1 (bar_x b) @ ''" y="'' @ formatFixed 1 (bar_y b) @
     ''" width="'' @ formatFixed 1 (bar_width b) @ ''" height="'' @ formatFixed 1 (bar_height b) @
     ''" rx="4" fill="'' @ bar_color b @ ''"/><text x="'' @
     formatFixed 1 (fadd (bar_x b) (fdiv (bar_width b) (Fin 2))) @ ''" y="'' @ formatFixed 1 (fsub (bar_y b) (Fin 8)) @
     ''" text-anchor="middle" fill="#f0f6fc" font-family="system-ui,sans-serif" font-size="12">'' @
     formatValue (bar_value b) unit precision @ ''</text>''\<close>

definition drawGroup :: "string \<Rightarrow> nat \<Rightarrow> barGroup \<Rightarrow> string" where
  \<open>drawGroup unit precision g =
     drawBar unit precision (group_cgo g) @ drawBar unit precision (group_noCGO g) @
     ''<text x="'' @ formatFixed 1 (group_center g) @
     ''" y="420" text-anchor="middle" fill="#c9d1d9" font-family="system-ui,sans-serif" font-size="13">'' @
     escape (group_label g) @ ''</text>''\<close>

lemmas plot_defs = plotTop_def plotBottom_def plotLeft_def plotRight_def

lemma writeBar_draws:
  "writeBar output x width value maximum color unit precision =
     output @ drawBar unit precision (placeBar x width value maximum color)"
  by (simp add: writeBar_def drawBar_def placeBar_def Let_def plot_defs)

lemma writeGroups_draws:
  "writeGroups output index cases groupWidth barWidth maximum unit precision =
     output @ concat (map (drawGroup unit precision \<circ> (\<lambda>(i, c). placeGroup groupWidth barWidth maximum i c))
       (enumerate index cases))"
  by (induction cases arbitrary: "output" "index")
     (simp_all add: writeBar_draws drawGroup_def placeGroup_def Let_def plot_defs)

lemma renderGroupedBars_draws:
  "renderGroupedBars title description unit metadata cases precision =
     chartHead title description unit metadata @ concat (map (drawGroup unit precision) (layout cases)) @ ''</svg>''"
  by (simp add: renderGroupedBars_def writeGroups_draws layout_def Let_def groupWidthOf_def barWidthOf_def
      scaleOf_def plot_defs)

section \<open>Vertical extent\<close>

definition plotted :: "float64 \<Rightarrow> bool" where
  "plotted v \<longleftrightarrow> (\<exists>x. v = Fin x \<and> 0 < x \<and> representable x)"

definition plottedCase :: "chartCase \<Rightarrow> bool" where
  "plottedCase c \<longleftrightarrow> plotted (chart_cgo c) \<and> plotted (chart_noCGO c)"

lemma fmax_Fin [simp]: "fmax (Fin a) (Fin b) = Fin (max a b)"
  by (simp add: fmax_def max_def)

lemma maximum_from:
  assumes "list_all plottedCase cases" and "0 \<le> m" and "representable m"
  shows "\<exists>k. foldl (\<lambda>maximum c. fmax (fmax maximum (chart_cgo c)) (chart_noCGO c)) (Fin m) cases = Fin k \<and>
     m \<le> k \<and> representable k \<and>
     (\<forall>c \<in> set cases. fle (chart_cgo c) (Fin k) \<and> fle (chart_noCGO c) (Fin k))"
  using assms
proof (induction cases arbitrary: m)
  case (Cons c cases)
  then obtain a b where ab: "chart_cgo c = Fin a" "chart_noCGO c = Fin b" "0 < a" "0 < b" "representable a" "representable b"
    by (auto simp: plottedCase_def plotted_def)
  with Cons.prems have "0 \<le> max (max m a) b" "representable (max (max m a) b)" "list_all plottedCase cases"
    by (simp_all add: max_def)
  from Cons.IH [OF this(3,1,2)] ab show ?case by (auto simp: max_def split: if_splits)
qed simp

lemma chartMaximum_bounds:
  assumes "list_all plottedCase cases" and "cases \<noteq> []"
  obtains k where "chartMaximum cases = Fin k" "0 < k" "representable k"
    "\<And>c. c \<in> set cases \<Longrightarrow> fle (chart_cgo c) (Fin k) \<and> fle (chart_noCGO c) (Fin k)"
proof -
  from maximum_from [OF assms(1), of 0] representable_int [of 0] obtain k where
    k: "chartMaximum cases = Fin k" "representable k"
      "\<forall>c \<in> set cases. fle (chart_cgo c) (Fin k) \<and> fle (chart_noCGO c) (Fin k)"
    by (auto simp: chartMaximum_def)
  from assms obtain c where c: "c \<in> set cases" "plottedCase c" by (cases cases) auto
  with k(3) have "0 < k" by (auto simp: plottedCase_def plotted_def)
  with k that show thesis by blast
qed

lemma fround_zero [simp]: "fround 0 = 0"
  by (simp add: fround_def)

text \<open>The scale is at least the largest value, or overflows to infinity.\<close>

lemma scale_cases:
  assumes "0 < k" and "representable k"
  obtains (overflow) "fmul (Fin k) (ofRat (11 / 10)) = Infinite False"
  | (scaled) s where "fmul (Fin k) (ofRat (11 / 10)) = Fin s" "k \<le> s"
proof -
  have "1 \<le> fround (11 / 10)" using representable_int [of 1] by (intro ieee.above) simp_all
  with assms have "k \<le> k * fround (11 / 10)" by simp
  with assms(2) have le: "k \<le> fround (k * fround (11 / 10))" by (intro ieee.above)
  have "fmul (Fin k) (ofRat (11 / 10)) = ofRat (k * fround (11 / 10))" by (simp add: ofRat_small)
  with le assms(1) overflow scaled show thesis
    unfolding ofRat_def Let_def
    by (cases "\<bar>fround (k * fround (11 / 10))\<bar> \<ge> 2 ^ 1024") (simp_all del: numeral_power_le_of_nat_cancel_iff)
qed

definition heightOf :: "float64 \<Rightarrow> rat \<Rightarrow> rat" where
  "heightOf scale a = (case scale of Fin s \<Rightarrow> fround (fround (a / s) * 298) | _ \<Rightarrow> 0)"

lemma height_value:
  assumes "0 < k" and "representable k" and "0 \<le> a" and "a \<le> k" and S: "S = fmul (Fin k) (ofRat (11 / 10))"
  shows "fmul (fdiv (Fin a) S) (Fin 298) = Fin (heightOf S a) \<and> 0 \<le> heightOf S a \<and> heightOf S a \<le> 298"
  using assms(1,2)
proof (cases rule: scale_cases)
  case overflow
  then show ?thesis by (simp add: S heightOf_def ofRat_small)
next
  case (scaled s)
  with assms have q: "0 \<le> a / s" "a / s \<le> 1" by (simp_all add: divide_le_eq_1)
  have nums: "representable 0" "representable 1" "representable 298"
    using representable_int [of 0] representable_int [of 1] representable_int [of 298] by simp_all
  have "0 \<le> fround (fround (a / s) * 298)" "fround (fround (a / s) * 298) \<le> 298"
    using ieee.fraction_of [OF q nums] by simp_all
  moreover have "0 \<le> fround (a / s)" "fround (a / s) \<le> 1" using q nums by (blast intro: ieee.above ieee.below)+
  moreover have "s \<noteq> 0" using scaled assms by simp
  ultimately show ?thesis using q scaled by (simp add: S heightOf_def ofRat_small)
qed

lemma heightOf_mono:
  assumes "0 < k" and "representable k" and "a \<le> b"
  shows "heightOf (fmul (Fin k) (ofRat (11 / 10))) a \<le> heightOf (fmul (Fin k) (ofRat (11 / 10))) b"
  using assms(1,2)
proof (cases rule: scale_cases)
  case (scaled s)
  with assms show ?thesis
    by (auto simp: heightOf_def intro!: fround_mono divide_right_mono mult_right_mono)
qed (simp add: heightOf_def)

definition inPlot :: "bar \<Rightarrow> bool" where
  "inPlot b \<longleftrightarrow>
     (\<exists>h y. bar_height b = Fin h \<and> bar_y b = Fin y \<and> 0 \<le> h \<and> h \<le> 298 \<and> 92 \<le> y \<and> y \<le> 390 \<and>
        \<bar>y + h - 390\<bar> \<le> eps)"

definition groupBars :: "barGroup list \<Rightarrow> bar list" where
  "groupBars groups = concat (map (\<lambda>g. [group_cgo g, group_noCGO g]) groups)"

lemma layout_bars:
  assumes "b \<in> set (groupBars (layout cases))"
  obtains c x width v color where "c \<in> set cases" "v = chart_cgo c \<or> v = chart_noCGO c"
    "b = placeBar x width v (scaleOf cases) color"
  using assms
  by (auto simp: groupBars_def layout_def placeGroup_def Let_def dest!: in_set_enumerate_eq [THEN iffD1] nth_mem) blast+

lemma layout_bar_height:
  assumes "list_all plottedCase cases" and "b \<in> set (groupBars (layout cases))"
  obtains k a where "0 < k" "representable k" "scaleOf cases = fmul (Fin k) (ofRat (11 / 10))" "0 < a" "a \<le> k"
    "bar_value b = Fin a" "bar_height b = Fin (heightOf (scaleOf cases) a)"
    "bar_y b = fsub (Fin 390) (Fin (heightOf (scaleOf cases) a))"
proof -
  from assms(2) obtain c x width v color where b: "c \<in> set cases" "v = chart_cgo c \<or> v = chart_noCGO c"
    "b = placeBar x width v (scaleOf cases) color" by (rule layout_bars)
  then have "cases \<noteq> []" by auto
  with assms(1) obtain k where k: "chartMaximum cases = Fin k" "0 < k" "representable k"
    "\<And>c. c \<in> set cases \<Longrightarrow> fle (chart_cgo c) (Fin k) \<and> fle (chart_noCGO c) (Fin k)"
    by (rule chartMaximum_bounds) blast
  from assms(1) b(1,2) have "plotted v" by (auto simp: list_all_iff plottedCase_def)
  then obtain a where a: "v = Fin a" "0 < a" by (auto simp: plotted_def)
  with k(4) [OF b(1)] b(2) have "a \<le> k" by (metis fle.simps(1))
  have S: "scaleOf cases = fmul (Fin k) (ofRat (11 / 10))" by (simp add: scaleOf_def k)
  with height_value [OF k(2,3) _ \<open>a \<le> k\<close> S] a b(3) that [OF k(2,3) S a(2) \<open>a \<le> k\<close>] show thesis
    by (simp add: placeBar_def Let_def)
qed

lemma layout_inPlot:
  assumes "list_all plottedCase cases" and "b \<in> set (groupBars (layout cases))"
  shows "inPlot b"
  using assms
proof (rule layout_bar_height)
  fix k a
  let ?h = "heightOf (scaleOf cases) a"
  assume k: "0 < k" "representable k" and S: "scaleOf cases = fmul (Fin k) (ofRat (11 / 10))"
    and a: "0 < a" "a \<le> k" and b: "bar_height b = Fin ?h" "bar_y b = fsub (Fin 390) (Fin ?h)"
  have h: "0 \<le> ?h" "?h \<le> 298" using height_value [OF k _ a(2) S] a(1) by simp_all
  have "representable 92" "representable 390" using representable_int [of 92] representable_int [of 390] by simp_all
  with h have y: "92 \<le> fround (390 - ?h)" "fround (390 - ?h) \<le> 390" by (auto intro!: ieee.above ieee.below)
  have "\<bar>fround (390 - ?h) - (390 - ?h)\<bar> \<le> eps" using h by (intro fround_error) simp
  moreover have "bar_y b = Fin (fround (390 - ?h))" using h by (simp add: b fsub_def ofRat_small)
  ultimately show ?thesis using h y b(1) by (simp add: inPlot_def algebra_simps)
qed

lemma layout_monotone:
  assumes "list_all plottedCase cases" and "b \<in> set (groupBars (layout cases))" "c \<in> set (groupBars (layout cases))"
    and "fle (bar_value b) (bar_value c)"
  shows "fle (bar_height b) (bar_height c)"
proof -
  from assms(1,2) obtain k a where "0 < k" "representable k" "scaleOf cases = fmul (Fin k) (ofRat (11 / 10))"
    "bar_value b = Fin a" "bar_height b = Fin (heightOf (scaleOf cases) a)" by (rule layout_bar_height)
  moreover from assms(1,3) obtain a' where "bar_value c = Fin a'" "bar_height c = Fin (heightOf (scaleOf cases) a')"
    by (rule layout_bar_height)
  ultimately show ?thesis using assms(4) by (simp add: heightOf_mono)
qed

section \<open>Horizontal extent\<close>

lemma ofRat_near:
  assumes "\<bar>x\<bar> \<le> 1024"
  obtains y where "ofRat x = Fin y" "\<bar>y - x\<bar> \<le> eps"
proof
  show "ofRat x = Fin (fround x)" using assms by (intro ofRat_small) simp
  show "\<bar>fround x - x\<bar> \<le> eps" using assms by (rule fround_error)
qed

lemma ofRat_exact:
  assumes "representable x" and "\<bar>x\<bar> \<le> 1024"
  shows "ofRat x = Fin x"
  using assms ofRat_small [of x] by (simp add: ieee.fixed)

lemma near_mult:
  fixes a b x y :: rat
  assumes "\<bar>a - x\<bar> \<le> d" "\<bar>b - y\<bar> \<le> e" "\<bar>b\<bar> \<le> m" "\<bar>x\<bar> \<le> k"
  shows "\<bar>a * b - x * y\<bar> \<le> d * m + k * e"
proof -
  have "a * b - x * y = (a - x) * b + x * (b - y)" by (simp add: algebra_simps)
  then have "\<bar>a * b - x * y\<bar> \<le> \<bar>(a - x) * b\<bar> + \<bar>x * (b - y)\<bar>" by simp
  also have "\<dots> \<le> d * m + k * e"
    unfolding abs_mult using assms by (intro add_mono mult_mono) auto
  finally show ?thesis .
qed

text \<open>The widths of \<open>n\<close> groups and of their bars, up to the rounding errors.\<close>

lemma widths:
  assumes "0 < n" and "n \<le> 61"
  obtains G W where "groupWidthOf n = Fin G" "\<bar>G - 836 / of_nat n\<bar> \<le> eps"
    "barWidthOf n = Fin W" "0 < W" "W \<le> 28 / 100 * (836 / of_nat n) + 1000 * eps"
proof -
  note e = eps_bounds
  define g where "g = 836 / rat_of_nat n"
  have n: "1 \<le> rat_of_nat n" "rat_of_nat n \<le> 61" using assms by (simp_all add: of_nat_le_iff [of n 61, simplified])
  then have g: "836 / 61 \<le> g" "g \<le> 836" by (simp_all add: g_def field_simps)
  have "ofRat (of_nat n) = Fin (of_nat n)" using n assms by (intro ofRat_exact representable_nat) simp_all
  then have gw: "groupWidthOf n = ofRat g" using assms by (simp add: groupWidthOf_def g_def)
  have "\<bar>g\<bar> \<le> 1024" using g by linarith
  then obtain G where G: "ofRat g = Fin G" "\<bar>G - g\<bar> \<le> eps" by (rule ofRat_near)
  have "\<bar>28 / 100 :: rat\<bar> \<le> 1024" by simp
  then obtain c where c: "ofRat (28 / 100) = Fin c" "\<bar>c - 28 / 100\<bar> \<le> eps" by (rule ofRat_near)
  have "\<bar>c\<bar> \<le> 1" "\<bar>g\<bar> \<le> 836" using c(2) g e by linarith+
  from near_mult [OF G(2) c(2) this] have prod: "\<bar>G * c - g * (28 / 100)\<bar> \<le> 837 * eps" by simp
  with g e have "\<bar>G * c\<bar> \<le> 1024" by linarith
  then obtain P where P: "ofRat (G * c) = Fin P" "\<bar>P - G * c\<bar> \<le> eps" by (rule ofRat_near)
  with gw G c have "barWidthOf n = Fin (min 70 P)" by (simp add: barWidthOf_def math_Min_def min_def)
  moreover have "0 < min 70 P" "min 70 P \<le> 28 / 100 * g + 1000 * eps"
    using prod P(2) g e by (linarith, simp add: min_def, linarith)
  ultimately show thesis using that gw G by (simp add: g_def)
qed

lemma slot_bounds:
  fixes n i :: rat
  assumes "1 \<le> n" "n \<le> 61" "i + 1 \<le> n" "0 \<le> i"
  shows "836 / 61 \<le> 836 / n" "836 / n \<le> 836" "0 \<le> 836 / n * i" "836 / n * i + 836 / n \<le> 836"
  using assms by (simp_all add: field_simps)

text \<open>The centre of a group, up to the rounding errors.\<close>

lemma centre:
  assumes "i < n" and "n \<le> 61" and G: "groupWidthOf n = Fin G" "\<bar>G - 836 / of_nat n\<bar> \<le> eps"
  obtains C where
    "fadd (Fin 92) (fmul (groupWidthOf n) (fadd (ofRat (of_nat i)) (Fin (1 / 2)))) = Fin C"
    "\<bar>C - (92 + 836 / of_nat n * (of_nat i + 1 / 2))\<bar> \<le> 64 * eps"
proof -
  note e = eps_bounds
  define g where "g = 836 / rat_of_nat n"
  define j where "j = rat_of_nat i + 1 / 2"
  have i: "rat_of_nat i + 1 \<le> of_nat n" "0 \<le> rat_of_nat i" "rat_of_nat n \<le> 61"
    using assms(1,2) by (simp_all add: of_nat_le_iff [of n 61, simplified] flip: of_nat_Suc)
  then have j: "\<bar>j\<bar> \<le> 61" by (simp add: j_def)
  have "j \<le> of_nat n" using i by (simp add: j_def)
  then have gj: "0 \<le> g * j" "g * j \<le> 836" using i by (simp_all add: g_def j_def divide_le_eq field_simps)
  have "ofRat (of_nat i) = Fin (of_nat i)" using i assms by (intro ofRat_exact representable_nat) simp_all
  moreover have "ofRat j = Fin j"
    using j i representableI [of "2 * int i + 1" "-1"] assms(1,2)
    by (intro ofRat_exact) (simp_all add: j_def add_divide_distrib power_int_minus)
  ultimately have half: "fadd (ofRat (of_nat i)) (Fin (1 / 2)) = Fin j" by (simp add: j_def)
  have "\<bar>G * j - g * j\<bar> \<le> eps * 61"
    using near_mult [OF G(2) [folded g_def], of j j 0 61 "\<bar>g\<bar>"] j by simp
  moreover from this gj e have "\<bar>G * j\<bar> \<le> 1024" by linarith
  then obtain T where T: "ofRat (G * j) = Fin T" "\<bar>T - G * j\<bar> \<le> eps" by (rule ofRat_near)
  ultimately have T': "\<bar>T - g * j\<bar> \<le> 62 * eps" by linarith
  with gj e have "\<bar>92 + T\<bar> \<le> 1024" by linarith
  then obtain C where C: "ofRat (92 + T) = Fin C" "\<bar>C - (92 + T)\<bar> \<le> eps" by (rule ofRat_near)
  show thesis
  proof
    show "fadd (Fin 92) (fmul (groupWidthOf n) (fadd (ofRat (of_nat i)) (Fin (1 / 2)))) = Fin C"
      by (simp add: half G T C)
    show "\<bar>C - (92 + 836 / of_nat n * (of_nat i + 1 / 2))\<bar> \<le> 64 * eps"
      using T' C(2) e unfolding g_def [symmetric] j_def [symmetric] by linarith
  qed
qed

definition inSlot :: "nat \<Rightarrow> nat \<Rightarrow> barGroup \<Rightarrow> bool" where
  "inSlot n i g \<longleftrightarrow>
     (\<exists>left right width. bar_x (group_cgo g) = Fin left \<and> bar_x (group_noCGO g) = Fin right \<and>
        bar_width (group_cgo g) = Fin width \<and> bar_width (group_noCGO g) = Fin width \<and> 0 < width \<and>
        92 + 836 / of_nat n * of_nat i \<le> left \<and> left + width < right \<and>
        right + width \<le> 92 + 836 / of_nat n * (of_nat i + 1))"

lemma layout_inSlot:
  assumes "length cases \<le> 61" and "i < length cases"
  shows "inSlot (length cases) i (layout cases ! i)"
proof -
  note e = eps_bounds
  let ?n = "length cases"
  define g where "g = 836 / rat_of_nat ?n"
  from assms have "0 < ?n" by auto
  then obtain G W where GW: "groupWidthOf ?n = Fin G" "\<bar>G - 836 / of_nat ?n\<bar> \<le> eps"
    "barWidthOf ?n = Fin W" "0 < W" "W \<le> 28 / 100 * (836 / of_nat ?n) + 1000 * eps"
    using assms(1) by (rule widths)
  obtain C where C: "fadd (Fin 92) (fmul (groupWidthOf ?n) (fadd (ofRat (of_nat i)) (Fin (1 / 2)))) = Fin C"
    "\<bar>C - (92 + g * (of_nat i + 1 / 2))\<bar> \<le> 64 * eps"
    unfolding g_def by (rule centre [OF assms(2,1) GW(1,2)])
  have n: "1 \<le> rat_of_nat ?n" "rat_of_nat ?n \<le> 61" "rat_of_nat i + 1 \<le> of_nat ?n" "0 \<le> rat_of_nat i"
    using assms \<open>0 < ?n\<close> by (simp_all add: of_nat_le_iff [of ?n 61, simplified] flip: of_nat_Suc)
  then have g: "836 / 61 \<le> g" "g \<le> 836" "0 \<le> g * of_nat i" "g * of_nat i + g \<le> 836"
    unfolding g_def by (rule slot_bounds [of "of_nat ?n" "of_nat i"])+
  have W: "W \<le> 28 / 100 * g + 1000 * eps" using GW(5) by (simp add: g_def)
  have C': "\<bar>C - (92 + g * of_nat i + g / 2)\<bar> \<le> 64 * eps" using C(2) by (simp add: distrib_left)
  with g e W GW(4) have "\<bar>C - W\<bar> \<le> 1024" "\<bar>C + 3\<bar> \<le> 1024" by linarith+
  then obtain A1 B where A1: "ofRat (C - W) = Fin A1" "\<bar>A1 - (C - W)\<bar> \<le> eps"
    and B: "ofRat (C + 3) = Fin B" "\<bar>B - (C + 3)\<bar> \<le> eps" by (metis ofRat_near)
  with C' g e W GW(4) have "\<bar>A1 - 3\<bar> \<le> 1024" by linarith
  then obtain A where A: "ofRat (A1 - 3) = Fin A" "\<bar>A - (A1 - 3)\<bar> \<le> eps" by (rule ofRat_near)
  have "layout cases ! i = placeGroup (groupWidthOf ?n) (barWidthOf ?n) (scaleOf cases) i (cases ! i)"
    using assms(2) by (simp add: layout_def nth_enumerate_eq)
  moreover have "fsub (fsub (Fin C) (Fin W)) (Fin 3) = Fin A" "fadd (Fin C) (Fin 3) = Fin B"
    using A A1 B by (simp_all add: fsub_def)
  moreover have "92 + g * of_nat i \<le> A" "A + W < B" "B + W \<le> 92 + (g * of_nat i + g)"
    using A(2) A1(2) B(2) C' g e W GW(4) by linarith+
  ultimately show ?thesis
    unfolding inSlot_def g_def [symmetric] using GW(3,4) C(1)
    by (simp add: placeGroup_def placeBar_def Let_def distrib_left)
qed

section \<open>What a dataset draws\<close>

text \<open>The cases of the four charts.\<close>

definition chartInputs :: "dataset \<Rightarrow> chartCase list list" where
  "chartInputs input =
     (case chartSeries input of
        Inl _ \<Rightarrow> []
      | Inr (latency, allocations) \<Rightarrow>
          [latency, allocations,
           [footprintCase (Workload (Footprint input)) (ColdRSS (foot_CGO (Footprint input))) (ColdRSS (foot_NoCGO (Footprint input)))],
           [footprintCase (Workload (Footprint input)) (BinarySize (foot_CGO (Footprint input))) (BinarySize (foot_NoCGO (Footprint input)))]])"

text \<open>
  The footprint measures at least one byte. Validation accepts smaller positive numbers too,
  and below \<open>2 ^ (-1055)\<close> their quotient by a mebibyte is zero.
\<close>

definition wholeBytes :: "footprint \<Rightarrow> bool" where
  "wholeBytes f =
     list_all (\<lambda>v. fle (Fin 1) (ofBits v))
       [ColdRSS (foot_CGO f), ColdRSS (foot_NoCGO f), BinarySize (foot_CGO f), BinarySize (foot_NoCGO f)]"

lemma measurement_plotted:
  assumes "positiveFinite v"
  shows "plotted (ofBits v)"
  using assms ofBits_positive [of v] by (auto simp: positiveFinite_def plotted_def)

lemma footprint_plotted:
  assumes "positiveFinite v" and "fle (Fin 1) (ofBits v)"
  shows "plotted (fdiv (ofBits v) (Fin mebibyte))"
proof -
  from assms obtain x where x: "ofBits v = Fin x" "1 \<le> x" "x < 2 ^ 1024" "representable x"
    using ofBits_positive [of v] by (auto simp: positiveFinite_def)
  have "representable (1 / mebibyte)"
    using representableI [of 1 "-20"] by (simp add: mebibyte_def power_int_minus)
  with x(2) have low: "1 / mebibyte \<le> fround (x / mebibyte)"
    by (intro ieee.above) (simp_all add: mebibyte_def)
  have "x / mebibyte \<le> x" using x(2) by (simp add: mebibyte_def)
  with x(4) have "fround (x / mebibyte) \<le> x" by (intro ieee.below)
  with x(3) have "fround (x / mebibyte) < 2 ^ 1024" by linarith
  moreover have "0 < fround (x / mebibyte)" using low by (rule less_le_trans [rotated]) (simp add: mebibyte_def)
  ultimately have "\<not> 2 ^ 1024 \<le> \<bar>fround (x / mebibyte)\<bar>" by (simp only: abs_of_pos not_le)
  then have "ofRat (x / mebibyte) = Fin (fround (x / mebibyte))" by (rule ofRat_finite)
  moreover have "fdiv (ofBits v) (Fin mebibyte) = ofRat (x / mebibyte)" by (simp add: x(1) mebibyte_def)
  ultimately have "fdiv (ofBits v) (Fin mebibyte) = Fin (fround (x / mebibyte))" by simp
  with \<open>0 < fround (x / mebibyte)\<close> fround_representable show ?thesis by (auto simp: plotted_def)
qed

lemma chartInputs_plotted:
  assumes "dataset_validate input = None" and "wholeBytes (Footprint input)" and "cases \<in> set (chartInputs input)"
  shows "list_all plottedCase cases"
proof -
  have "validateCases {} {} (Cases input) = None"
    using assms(1) by (auto simp: dataset_validate_def split: if_splits option.splits)
  then have valid: "\<forall>c \<in> set (Cases input). validCase c" by (simp add: validateCases_None list_all_iff)
  have foot: "positiveFinite (ColdRSS (foot_CGO (Footprint input)))" "positiveFinite (ColdRSS (foot_NoCGO (Footprint input)))"
    "positiveFinite (BinarySize (foot_CGO (Footprint input)))" "positiveFinite (BinarySize (foot_NoCGO (Footprint input)))"
    using assms(1) by (auto simp: dataset_validate_def split: if_splits option.splits)
  from assms(2) have whole: "fle (Fin 1) (ofBits (ColdRSS (foot_CGO (Footprint input))))"
    "fle (Fin 1) (ofBits (ColdRSS (foot_NoCGO (Footprint input))))"
    "fle (Fin 1) (ofBits (BinarySize (foot_CGO (Footprint input))))"
    "fle (Fin 1) (ofBits (BinarySize (foot_NoCGO (Footprint input))))"
    by (simp_all add: wholeBytes_def)
  from assms(1,3) valid foot whole show ?thesis
    by (auto simp: chartInputs_def chartSeries_def Let_def list_all_iff SortFunc_set plottedCase_def validCase_def
        footprintCase_def measurement_plotted footprint_plotted)
qed

text \<open>\<open>renderCharts\<close> draws the charts of these cases, in this order.\<close>

definition draws :: "string \<times> string \<Rightarrow> chartCase list \<Rightarrow> bool" where
  "draws chart cases \<longleftrightarrow>
     (\<exists>title description unit metadata precision.
        snd chart = chartHead title description unit metadata @
          concat (map (drawGroup unit precision) (layout cases)) @ ''</svg>'')"

lemma draws_renderGroupedBars:
  "draws (name, renderGroupedBars title description unit metadata cases precision) cases"
  unfolding draws_def snd_conv renderGroupedBars_draws by blast

lemma renderCharts_draws:
  assumes "renderCharts input = Inr charts"
  shows "dataset_validate input = None" "list_all2 draws charts (chartInputs input)"
  using assms
  by (auto simp: renderCharts_def chartInputs_def chartSeries_def draws_renderGroupedBars Let_def
      split: sum.splits prod.splits option.splits)

lemma length_layout: "length (layout cases) = length cases"
  by (simp add: layout_def)

lemma renderCharts_valid: "dataset_validate input = None \<Longrightarrow> \<exists>charts. renderCharts input = Inr charts"
  by (simp add: renderCharts_def chartSeries_def Let_def)

section \<open>Properties\<close>


lemma one_bits: "positiveFinite 0x3FF0000000000000" "ofBits 0x3FF0000000000000 = Fin 1"
  by (simp_all add: positiveFinite_iff) (simp add: ofBits_def exponent_def fraction_def negative_def power_int_minus)




end
