(* ===== verification/Bench_Markup.thy ===== *)
theory Bench_Markup
  imports Bench_Render
begin

text \<open>
  The charts of \<^verbatim>\<open>benchcharts\<close> as documents: what the dataset can and cannot change in their
  text. Numbers are printed in plain characters and texts are escaped, so the delimiters of a
  chart come from its templates only.
\<close>

section \<open>Markup\<close>

definition markup :: "string \<Rightarrow> string" where
  "markup s = filter (\<lambda>c. c \<in> delimiters) s"

lemma markup_append [simp]: "markup (s @ t) = markup s @ markup t"
  by (simp add: markup_def)

lemma markup_escape [simp]: "markup (escape s) = []"
  using EscapeText_free [of s] by (auto simp: markup_def escape_def filter_empty_conv)

lemma markup_simps [simp]: "markup [] = []"
  "markup (c # s) = (if c \<in> delimiters then c # markup s else markup s)"
  by (simp_all add: markup_def)

text \<open>Numbers are printed in plain characters.\<close>

definition plainChar :: "char \<Rightarrow> bool" where
  "plainChar c = (0x28 \<le> byte c \<and> byte c < 0x80 \<and> byte c \<noteq> 0x3C \<and> byte c \<noteq> 0x3E)"

lemma digit_plain: "n < 10 \<Longrightarrow> plainChar (digit n)"
  by (simp add: plainChar_def digit_def)

lemma showNat_plain: "list_all plainChar (showNat n)"
proof (induction n rule: showNat.induct)
  case (1 n)
  then show ?case by (subst showNat.simps) (auto simp: digit_plain)
qed

lemma showPadded_plain: "list_all plainChar (showPadded k n)"
  by (induction k arbitrary: n) (auto simp: digit_plain)

lemma formatFixed_plain: "list_all plainChar (formatFixed precision v)"
  by (cases v) (auto simp: showFixed_def showNat_plain showPadded_plain plainChar_def)

lemma plain_markup: "list_all plainChar s \<Longrightarrow> markup s = []"
  by (auto simp: list_all_iff markup_def filter_empty_conv plainChar_def delimiters_def)

lemma plain_xml: "list_all plainChar s \<Longrightarrow> xmlText (s @ t) = xmlText t"
  by (rule xmlText_printable) (auto simp: list_all_iff plainChar_def)

lemma formatFixed_markup [simp]: "markup (formatFixed precision v) = []" "markup (formatValue v unit precision) = []"
  by (simp_all add: formatValue_def plain_markup formatFixed_plain)

lemma formatFixed_xml [simp]: "xmlText (formatFixed precision v @ t) = xmlText t"
  "xmlText (formatValue v unit precision @ t) = xmlText t"
  by (simp_all add: formatValue_def plain_xml formatFixed_plain)

lemma escape_xml [simp]: "xmlText (escape s @ t) = xmlText t"
  by (simp add: escape_def xmlText_append EscapeText_xmlText)

lemma markup_group:
  "markup (drawGroup unit precision (placeGroup groupWidth barWidth maximum i c)) =
   markup (drawGroup unit' precision' (placeGroup groupWidth' barWidth' maximum' i' c'))"
  by (simp only: drawGroup_def drawBar_def placeGroup_def placeBar_def Let_def bar.simps barGroup.simps
      markup_append markup_escape formatFixed_markup append_Nil)

lemma xml_group:
  "xmlText (drawGroup unit precision (placeGroup groupWidth barWidth maximum i c) @ t) = xmlText t"
  by (simp add: drawGroup_def drawBar_def placeGroup_def placeBar_def Let_def xmlText_ascii)

lemma markup_head: "markup (chartHead title description unit metadata) = markup (chartHead [] [] [] [])"
  by (simp only: chartHead_def markup_append markup_escape)

lemma xml_head: "xmlText (chartHead title description unit metadata @ t) = xmlText t"
  by (simp add: chartHead_def xmlText_ascii)

lemma markup_concat: "markup (concat ss) = concat (map markup ss)"
  by (induction ss) simp_all

lemma markup_groups:
  assumes "length cases = length cases'"
  shows "map (markup \<circ> drawGroup unit precision) (layout cases) = map (markup \<circ> drawGroup unit' precision') (layout cases')"
  using assms by (auto simp: layout_def nth_enumerate_eq intro!: nth_equalityI [where ?'a = string] markup_group)

lemma markup_chart:
  assumes "length cases = length cases'"
  shows "markup (renderGroupedBars title description unit metadata cases precision) =
    markup (renderGroupedBars title' description' unit' metadata' cases' precision')"
  unfolding renderGroupedBars_draws markup_append markup_concat map_map
    markup_head [of title description unit metadata] markup_head [of title' description' unit' metadata']
    markup_groups [OF assms, of unit precision unit' precision'] ..

lemma xml_groups: "xmlText (concat (map (drawGroup unit precision) (layout cases)) @ t) = xmlText t"
proof -
  have "xmlText (concat (map (drawGroup unit precision \<circ> (\<lambda>(i, c). placeGroup groupWidth barWidth maximum i c)) ics) @ t) =
      xmlText t" for groupWidth barWidth maximum ics
    by (induction ics) (auto simp: xml_group)
  then show ?thesis by (simp add: layout_def)
qed

lemma xml_chart: "xmlText (renderGroupedBars title description unit metadata cases precision)"
  unfolding renderGroupedBars_draws xml_head xml_groups by (simp add: xmlText_ascii xmlText.simps(1))

lemma SortFunc_length: "length (SortFunc cmp xs) = length xs"
  using SortFunc_mset [of cmp xs] by (metis size_mset)

section \<open>Properties\<close>

text \<open>
  C39: no dataset can change the markup of a chart. For two valid datasets with the same number
  of cases the four charts have the same names and, reading off \<^verbatim>\<open><\<close>, \<^verbatim>\<open>>\<close> and the quotes, the same
  markup, whatever their labels, host names, units and measurements hold; and every chart is
  valid UTF-8 of XML characters.
\<close>

theorem chart_markup_fixed:
  assumes "renderCharts input = Inr charts" and "renderCharts input' = Inr charts'"
    and "length (Cases input) = length (Cases input')"
  shows "map fst charts = map fst charts' \<and> map (markup \<circ> snd) charts = map (markup \<circ> snd) charts' \<and>
     list_all (xmlText \<circ> snd) charts"
  using assms
  by (auto simp: renderCharts_def chartSeries_def Let_def SortFunc_length xml_chart
      split: option.splits intro!: markup_chart)

definition hostileDataset :: dataset where
  "hostileDataset = sampleDataset\<lparr>MeasurementDate := ''<!-- '', Cases := [sampleCase ''</svg>'' 3, sampleCase ''&lt;'' 4]\<rparr>"

theorem chart_markup_fixed_witness:
  "\<exists>charts charts'. renderCharts sampleDataset = Inr charts \<and> renderCharts hostileDataset = Inr charts' \<and>
     map (markup \<circ> snd) charts = map (markup \<circ> snd) charts' \<and> list_all (xmlText \<circ> snd) charts'"
proof -
  have one: "positiveFinite 0x3FF0000000000000" by (simp add: positiveFinite_iff)
  have "dataset_validate sampleDataset = None" "dataset_validate hostileDataset = None"
    by (simp_all add: dataset_validate_def hostileDataset_def sampleDataset_def sampleCase_def complete_def one Let_def)
  then obtain charts charts' where charts: "renderCharts sampleDataset = Inr charts" "renderCharts hostileDataset = Inr charts'"
    by (blast dest: renderCharts_valid)
  have "length (Cases sampleDataset) = length (Cases hostileDataset)"
    by (simp add: hostileDataset_def sampleDataset_def Let_def)
  from chart_markup_fixed [OF charts this] chart_markup_fixed [OF charts(2,1) this [symmetric]] charts
  show ?thesis by auto
qed



end
