(* ===== verification/Go_Json.thy ===== *)
theory Go_Json
  imports Go_Float Go_Xml
begin

text \<open>
  What the chart tool uses of \<^verbatim>\<open>encoding/json\<close>: \<open>Decoder.Decode\<close> with \<open>DisallowUnknownFields\<close>. The
  scanner reads the first JSON value of a byte string, byte by byte with a stack of open
  objects and arrays; the decoder stores that value into a Go value under the direction of its
  type. A type is a descriptor as package \<open>reflect\<close> gives it, for the types the tool declares:
  strings, integers, floats, structs with tagged fields, slices. The first error is kept and
  decoding goes on, as in Go.
\<close>

section \<open>Values\<close>

text \<open>A number literal: sign, integer digits, fraction digits and signed exponent digits.\<close>

datatype numberLit =
    NumberLit (num_negative: bool) (num_integer: string) (num_fraction: "string option")
      (num_exponent: "(bool \<times> string) option")

datatype json =
    JNull
  | JBool bool
  | JNumber numberLit
  | JString string
  | JArray "json list"
  | JObject "jmember list"
and jmember =
    JMember string json

section \<open>Strings\<close>

definition isDigit :: "char \<Rightarrow> bool" where
  "isDigit c = between 0x30 0x39 c"

definition hexValue :: "char \<Rightarrow> nat option" where
  "hexValue c =
     (if between 0x30 0x39 c then Some (byte c - 0x30)
      else if between 0x61 0x66 c then Some (byte c - 0x57)
      else if between 0x41 0x46 c then Some (byte c - 0x37)
      else None)"

fun hex4 :: "string \<Rightarrow> (nat \<times> string) option" where
  "hex4 (a # b # c # d # s) =
     (case (hexValue a, hexValue b, hexValue c, hexValue d) of
        (Some w, Some x, Some y, Some z) \<Rightarrow> Some (((w * 16 + x) * 16 + y) * 16 + z, s)
      | _ \<Rightarrow> None)"
| "hex4 _ = None"

text \<open>The escapes of one letter.\<close>

definition simpleEscape :: "char \<Rightarrow> char option" where
  "simpleEscape c =
     map_of [(CHR 0x22, CHR 0x22), (CHR 0x5C, CHR 0x5C), (CHR ''/'', CHR ''/''), (CHR ''b'', CHR 0x08),
       (CHR ''f'', CHR 0x0C), (CHR ''n'', CHR 0x0A), (CHR ''r'', CHR 0x0D), (CHR ''t'', CHR 0x09)] c"

text \<open>\<open>utf8.AppendRune\<close>: surrogates and runes out of range are written as \<open>RuneError\<close>.\<close>

definition encodeRune :: "nat \<Rightarrow> string" where
  "encodeRune rune =
     (let r = (if 0xD800 \<le> rune \<and> rune \<le> 0xDFFF \<or> 0x10FFFF < rune then RuneError else rune)
      in if r < 0x80 then [char_of r]
         else if r < 0x800 then [char_of (0xC0 + r div 64), char_of (0x80 + r mod 64)]
         else if r < 0x10000 then
           [char_of (0xE0 + r div 4096), char_of (0x80 + r div 64 mod 64), char_of (0x80 + r mod 64)]
         else [char_of (0xF0 + r div 262144), char_of (0x80 + r div 4096 mod 64),
               char_of (0x80 + r div 64 mod 64), char_of (0x80 + r mod 64)])"

text \<open>The rune of an escape and, for the first half of a surrogate pair, of the escape after it.\<close>

definition highSurrogate :: "nat \<Rightarrow> bool" where
  "highSurrogate r = (0xD800 \<le> r \<and> r < 0xDC00)"

definition lowSurrogate :: "nat \<Rightarrow> bool" where
  "lowSurrogate r = (0xDC00 \<le> r \<and> r < 0xE000)"

definition unicodeEscape :: "nat \<Rightarrow> string \<Rightarrow> string \<times> string" where
  "unicodeEscape r s =
     (case s of
        c1 # c2 # s' \<Rightarrow>
          (if highSurrogate r \<and> c1 = CHR 0x5C \<and> c2 = CHR ''u'' then
             (case hex4 s' of
                Some (r2, s'') \<Rightarrow>
                  if lowSurrogate r2 then (encodeRune (0x10000 + (r - 0xD800) * 0x400 + (r2 - 0xDC00)), s'')
                  else (encodeRune r, s)
              | None \<Rightarrow> (encodeRune r, s))
           else (encodeRune r, s))
      | _ \<Rightarrow> (encodeRune r, s))"

lemma hex4_shorter: "hex4 s = Some (r, t) \<Longrightarrow> length t < length s"
  by (cases s rule: hex4.cases) (auto split: option.splits)

lemma unicodeEscape_shorter: "length (snd (unicodeEscape r s)) \<le> length s"
  by (auto simp: unicodeEscape_def split: list.split option.split dest!: hex4_shorter)

lemma unicodeEscape_shorter': "unicodeEscape r s = (x, t) \<Longrightarrow> length t \<le> length s"
  using unicodeEscape_shorter [of r s] by simp

text \<open>
  A string after its opening quote, with escapes resolved and bytes that are not UTF-8 replaced:
  the text and what follows the closing quote.
\<close>

function (sequential) scanString :: "string \<Rightarrow> (string \<times> string) option" where
  "scanString [] = None"
| "scanString (c # s) =
     (if c = CHR 0x22 then Some ([], s)
      else if byte c < 0x20 then None
      else if c = CHR 0x5C then
        (case s of
           [] \<Rightarrow> None
         | e # s' \<Rightarrow>
             (case simpleEscape e of
                Some x \<Rightarrow> map_option (\<lambda>(t, r). (x # t, r)) (scanString s')
              | None \<Rightarrow>
                  if e \<noteq> CHR ''u'' then None
                  else (case hex4 s' of
                          None \<Rightarrow> None
                        | Some (rune, s'') \<Rightarrow>
                            (case unicodeEscape rune s'' of
                               (x, s3) \<Rightarrow> map_option (\<lambda>(t, r). (x @ t, r)) (scanString s3)))))
      else
        (case DecodeRune c s of
           (rune, width) \<Rightarrow>
             map_option (\<lambda>(t, r). (encodeRune rune @ t, r)) (scanString (drop (width - 1) s))))"
  by pat_completeness auto
termination
  by (relation "measure length")
     (auto dest!: hex4_shorter unicodeEscape_shorter' [OF sym])

lemma scanString_shorter: "scanString s = Some (t, r) \<Longrightarrow> length r < length s"
proof (induction s arbitrary: t r rule: length_induct)
  case (1 s)
  have IH: "length r' < length s - 1" if "scanString u = Some (t', r')" "length u \<le> length s - 1" "s \<noteq> []" for u t' r'
    using 1(1) that by (metis One_nat_def Suc_pred le_imp_less_Suc length_greater_0_conv less_le_trans)
  show ?case
  proof (cases s)
    case (Cons c s')
    with 1(2) show ?thesis
      by (auto split: if_splits list.splits option.splits prod.splits dest!: hex4_shorter unicodeEscape_shorter' IH)
  qed (use 1(2) in simp)
qed

section \<open>Numbers\<close>

definition scanExponent :: "bool \<Rightarrow> string \<Rightarrow> string option \<Rightarrow> string \<Rightarrow> (numberLit \<times> string) option" where
  "scanExponent neg ds fd s =
     (case s of
        c # r \<Rightarrow>
          (if c = CHR ''e'' \<or> c = CHR ''E'' then
             (let sign = (r \<noteq> [] \<and> hd r = CHR ''-'');
                  r1 = (if r \<noteq> [] \<and> (hd r = CHR ''-'' \<or> hd r = CHR ''+'') then tl r else r);
                  es = takeWhile isDigit r1
              in if es = [] then None
                 else Some (NumberLit neg ds fd (Some (sign, es)), dropWhile isDigit r1))
           else Some (NumberLit neg ds fd None, s))
      | [] \<Rightarrow> Some (NumberLit neg ds fd None, s))"

definition scanFraction :: "bool \<Rightarrow> string \<Rightarrow> string \<Rightarrow> (numberLit \<times> string) option" where
  "scanFraction neg ds s =
     (if s \<noteq> [] \<and> hd s = CHR ''.'' then
        (let fs = takeWhile isDigit (tl s)
         in if fs = [] then None else scanExponent neg ds (Some fs) (dropWhile isDigit (tl s)))
      else scanExponent neg ds None s)"

definition scanInteger :: "bool \<Rightarrow> string \<Rightarrow> (numberLit \<times> string) option" where
  "scanInteger neg s =
     (case s of
        c # r \<Rightarrow>
          (if c = CHR ''0'' then scanFraction neg ''0'' r
           else if isDigit c then scanFraction neg (takeWhile isDigit s) (dropWhile isDigit s)
           else None)
      | [] \<Rightarrow> None)"

definition scanNumber :: "string \<Rightarrow> (numberLit \<times> string) option" where
  "scanNumber s =
     (if s \<noteq> [] \<and> hd s = CHR ''-'' then scanInteger True (tl s) else scanInteger False s)"

lemma length_dropWhile_le': "length (dropWhile P xs) \<le> length xs"
  by (rule length_dropWhile_le)

lemma scanExponent_le: "scanExponent neg ds f s = Some (n, r) \<Longrightarrow> length r \<le> length s"
  using length_dropWhile_le [of isDigit]
  by (auto simp: scanExponent_def Let_def split: list.splits if_splits)
     (metis (no_types) length_tl diff_le_self le_SucI le_trans)+

lemma scanFraction_le: "scanFraction neg ds s = Some (n, r) \<Longrightarrow> length r \<le> length s"
  using length_dropWhile_le [of isDigit "tl s"]
  by (auto simp: scanFraction_def Let_def split: if_splits dest!: scanExponent_le)

lemma scanInteger_less: "scanInteger neg s = Some (n, r) \<Longrightarrow> length r < length s"
proof (cases s)
  case (Cons c s')
  assume run: "scanInteger neg s = Some (n, r)"
  have "length (dropWhile isDigit s') \<le> length s'" by (rule length_dropWhile_le)
  with run Cons show ?thesis
    by (auto simp: scanInteger_def split: if_splits dest!: scanFraction_le)
qed (simp add: scanInteger_def)

lemma scanNumber_shorter: "scanNumber s = Some (n, r) \<Longrightarrow> length r < length s"
  by (auto simp: scanNumber_def split: if_splits dest!: scanInteger_less)

section \<open>The scanner\<close>

text \<open>
  An open array with its elements so far, latest first, or an open object with its members so
  far and the key whose value is being read.
\<close>

datatype frame =
    InArray "json list"
  | InObject "jmember list" string

text \<open>What comes next. A key belongs to an object that is open above the given frames.\<close>

datatype mode =
    BeginValue
  | BeginValueOrEmpty
  | BeginKey "jmember list" bool
  | EndKey "jmember list" string
  | EndValue json

definition isSpace :: "char \<Rightarrow> bool" where
  "isSpace c = (byte c \<in> {0x20, 0x09, 0x0D, 0x0A})"

definition skipSpace :: "string \<Rightarrow> string" where
  "skipSpace s = dropWhile isSpace s"

definition maxNestingDepth :: nat where
  "maxNestingDepth = 10000"

definition literals :: "(string \<times> json) list" where
  "literals = [(''true'', JBool True), (''false'', JBool False), (''null'', JNull)]"

definition scanLiteral :: "string \<Rightarrow> (json \<times> string) option" where
  "scanLiteral s =
     map_option (\<lambda>(l, j). (j, drop (length l) s)) (List.find (\<lambda>(l, j). take (length l) s = l) literals)"

lemma scanLiteral_shorter: "scanLiteral s = Some (j, r) \<Longrightarrow> length r < length s"
  by (auto simp: scanLiteral_def literals_def split: if_splits) (cases s; simp)+

text \<open>A string, number or literal.\<close>

definition scanScalar :: "string \<Rightarrow> (json \<times> string) option" where
  "scanScalar s =
     (case s of
        [] \<Rightarrow> None
      | c # r \<Rightarrow>
          if c = CHR 0x22 then map_option (\<lambda>(t, r'). (JString t, r')) (scanString r)
          else if c = CHR ''-'' \<or> isDigit c then map_option (\<lambda>(n, r'). (JNumber n, r')) (scanNumber s)
          else scanLiteral s)"

lemma scanScalar_shorter: "scanScalar s = Some (j, r) \<Longrightarrow> length r < length s"
  by (auto simp: scanScalar_def split: list.splits if_splits
      dest: scanString_shorter scanNumber_shorter scanLiteral_shorter)

lemma skipSpace_le: "length (skipSpace s) \<le> length s"
  by (simp add: skipSpace_def length_dropWhile_le)

lemma skipSpace_Cons: "skipSpace s = c # r \<Longrightarrow> length r < length s"
  using skipSpace_le [of s] by simp

function (sequential) scan :: "mode \<Rightarrow> frame list \<Rightarrow> string \<Rightarrow> (json \<times> string) option" where
  "scan (EndValue j) [] s = Some (j, s)"
| "scan (EndValue j) (InArray js # fs) s =
     (case skipSpace s of
        [] \<Rightarrow> None
      | c # r \<Rightarrow>
          if c = CHR '','' then scan BeginValue (InArray (j # js) # fs) r
          else if c = CHR '']'' then scan (EndValue (JArray (rev (j # js)))) fs r
          else None)"
| "scan (EndValue j) (InObject ms k # fs) s =
     (case skipSpace s of
        [] \<Rightarrow> None
      | c # r \<Rightarrow>
          if c = CHR '','' then scan (BeginKey (JMember k j # ms) False) fs r
          else if c = CHR ''}'' then scan (EndValue (JObject (rev (JMember k j # ms)))) fs r
          else None)"
| "scan (BeginKey ms closable) fs s =
     (case skipSpace s of
        [] \<Rightarrow> None
      | c # r \<Rightarrow>
          if closable \<and> c = CHR ''}'' then scan (EndValue (JObject (rev ms))) fs r
          else if c = CHR 0x22 then
            (case scanString r of None \<Rightarrow> None | Some (k, r') \<Rightarrow> scan (EndKey ms k) fs r')
          else None)"
| "scan (EndKey ms k) fs s =
     (case skipSpace s of
        [] \<Rightarrow> None
      | c # r \<Rightarrow> if c = CHR '':'' then scan BeginValue (InObject ms k # fs) r else None)"
| "scan BeginValueOrEmpty fs s =
     (case skipSpace s of
        [] \<Rightarrow> None
      | c # r \<Rightarrow>
          if c = CHR '']'' then
            (case fs of InArray js # fs' \<Rightarrow> scan (EndValue (JArray (rev js))) fs' r | _ \<Rightarrow> None)
          else scan BeginValue fs (c # r))"
| "scan BeginValue fs s =
     (case skipSpace s of
        [] \<Rightarrow> None
      | c # r \<Rightarrow>
          if c = CHR ''{'' then
            (if Suc (length fs) \<le> maxNestingDepth then scan (BeginKey [] True) fs r else None)
          else if c = CHR ''['' then
            (if Suc (length fs) \<le> maxNestingDepth then scan BeginValueOrEmpty (InArray [] # fs) r else None)
          else (case scanScalar (c # r) of None \<Rightarrow> None | Some (j, r') \<Rightarrow> scan (EndValue j) fs r'))"
  by pat_completeness auto
termination
proof (relation "measures [\<lambda>(m, fs, s). length s, \<lambda>(m, fs, s). if m = BeginValueOrEmpty then 1 else 0]", goal_cases)
qed (auto dest!: skipSpace_Cons [OF sym] skipSpace_Cons scanString_shorter scanScalar_shorter)

section \<open>Go types and values\<close>

datatype gotype =
    TString
  | TInt
  | TFloat
  | TStruct "gofield list"
  | TSlice gotype
and gofield =
    GoField (tag_name: string) (field_type: gotype)

text \<open>
  A slice has its elements and, between its length and its capacity, elements of earlier
  decodings that were cut off: growing the slice again brings them back.
\<close>

datatype goval =
    VString string
  | VInt "64 word"
  | VFloat "64 word"
  | VStruct "goval list"
  | VSlice "goval list" "goval list"

fun zeroOf :: "gotype \<Rightarrow> goval"
  and zeroFields :: "gofield list \<Rightarrow> goval list" where
  "zeroOf TString = VString []"
| "zeroOf TInt = VInt 0"
| "zeroOf TFloat = VFloat 0"
| "zeroOf (TStruct fs) = VStruct (zeroFields fs)"
| "zeroOf (TSlice t) = VSlice [] []"
| "zeroFields [] = []"
| "zeroFields (GoField name t # fs) = zeroOf t # zeroFields fs"

section \<open>Numbers in Go\<close>

definition decimal :: "string \<Rightarrow> nat" where
  "decimal ds = foldl (\<lambda>n c. n * 10 + (byte c - 0x30)) 0 ds"

text \<open>\<open>strconv.ParseInt\<close> with base ten and 64 bits.\<close>

definition ParseInt :: "numberLit \<Rightarrow> 64 word option" where
  "ParseInt n =
     (if num_fraction n \<noteq> None \<or> num_exponent n \<noteq> None then None
      else let i = (if num_negative n then - int (decimal (num_integer n)) else int (decimal (num_integer n)))
           in if - (2 ^ 63) \<le> i \<and> i < 2 ^ 63 then Some (word_of_int i) else None)"

text \<open>The exact magnitude of a literal.\<close>

definition magnitude :: "numberLit \<Rightarrow> rat" where
  "magnitude n =
     (let fs = (case num_fraction n of None \<Rightarrow> [] | Some fs \<Rightarrow> fs);
          e = (case num_exponent n of None \<Rightarrow> 0 | Some (neg, es) \<Rightarrow> if neg then - int (decimal es) else int (decimal es))
      in rat_of_nat (decimal (num_integer n @ fs)) * 10 powi (e - int (length fs)))"

text \<open>The bit pattern of a magnitude of the format.\<close>

definition packFloat :: "bool \<Rightarrow> rat \<Rightarrow> 64 word" where
  "packFloat neg m =
     (let sign = (if neg then 2 ^ 63 else 0);
          e = binade m
      in if m = 0 then of_nat sign
         else if e < -1022 then of_nat (sign + nat \<lfloor>m * 2 powi 1074\<rfloor>)
         else of_nat (sign + nat (e + 1023) * 2 ^ 52 + (nat \<lfloor>m * 2 powi (52 - e)\<rfloor> - 2 ^ 52)))"

text \<open>\<open>strconv.ParseFloat\<close> with 64 bits: the nearest value of the format, unless that is infinite.\<close>

definition ParseFloat :: "numberLit \<Rightarrow> 64 word option" where
  "ParseFloat n =
     (let m = fround (magnitude n)
      in if m \<ge> 2 ^ 1024 then None else Some (packFloat (num_negative n) m))"

section \<open>The decoder\<close>

text \<open>
  \<open>foldName\<close>: ASCII letters are raised, and so are the two other runes that fold to ASCII, the
  Kelvin sign and the long s. All other runes fold to runes outside ASCII and stay as they are
  here, which decides the comparison with an ASCII tag alike.
\<close>

fun foldName :: "string \<Rightarrow> string" where
  "foldName [] = []"
| "foldName (c # s) =
     (if c = CHR 0xE2 \<and> take 2 s = [CHR 0x84, CHR 0xAA] then CHR ''K'' # foldName (drop 2 s)
      else if c = CHR 0xC5 \<and> take 1 s = [CHR 0xBF] then CHR ''S'' # foldName (drop 1 s)
      else if between 0x61 0x7A c then char_of (byte c - 0x20) # foldName s
      else c # foldName s)"

fun indexOf :: "('a \<Rightarrow> bool) \<Rightarrow> 'a list \<Rightarrow> nat option" where
  "indexOf P [] = None"
| "indexOf P (x # xs) = (if P x then Some 0 else map_option Suc (indexOf P xs))"

definition fieldIndex :: "gofield list \<Rightarrow> string \<Rightarrow> nat option" where
  "fieldIndex fs key =
     (case indexOf (\<lambda>f. tag_name f = key) fs of
        Some i \<Rightarrow> Some i
      | None \<Rightarrow> indexOf (\<lambda>f. foldName (tag_name f) = foldName key) fs)"

datatype jsonError =
    JSONSyntax
  | JSONType
  | JSONUnknownField string

text \<open>\<open>saveError\<close>: the first error stays.\<close>

definition saveError :: "jsonError option \<Rightarrow> jsonError option \<Rightarrow> jsonError option" where
  "saveError saved new = (case saved of None \<Rightarrow> new | Some e \<Rightarrow> Some e)"

definition structOf :: "goval \<Rightarrow> goval list" where
  "structOf v = (case v of VStruct vs \<Rightarrow> vs | _ \<Rightarrow> [])"

definition sliceOf :: "goval \<Rightarrow> goval list" where
  "sliceOf v = (case v of VSlice xs stale \<Rightarrow> xs @ stale | _ \<Rightarrow> [])"

definition scalarStore :: "gotype \<Rightarrow> json \<Rightarrow> goval option" where
  "scalarStore t j =
     (case (t, j) of
        (TString, JString s) \<Rightarrow> Some (VString s)
      | (TInt, JNumber n) \<Rightarrow> map_option VInt (ParseInt n)
      | (TFloat, JNumber n) \<Rightarrow> map_option VFloat (ParseFloat n)
      | _ \<Rightarrow> None)"

fun decodeValue :: "gotype \<Rightarrow> json \<Rightarrow> goval \<Rightarrow> goval \<times> jsonError option"
  and decodeMembers :: "gofield list \<Rightarrow> jmember list \<Rightarrow> goval list \<Rightarrow> goval list \<times> jsonError option"
  and decodeElements :: "gotype \<Rightarrow> json list \<Rightarrow> goval list \<Rightarrow> goval list \<times> jsonError option" where
  "decodeValue t JNull v = (case t of TSlice _ \<Rightarrow> (VSlice [] [], None) | _ \<Rightarrow> (v, None))"
| "decodeValue t (JObject ms) v =
     (case t of
        TStruct fs \<Rightarrow> (case decodeMembers fs ms (structOf v) of (vs, err) \<Rightarrow> (VStruct vs, err))
      | _ \<Rightarrow> (v, Some JSONType))"
| "decodeValue t (JArray js) v =
     (case t of
        TSlice et \<Rightarrow>
          (case decodeElements et js (sliceOf v) of
             (xs, err) \<Rightarrow> (VSlice xs (if js = [] then [] else drop (length js) (sliceOf v)), err))
      | _ \<Rightarrow> (v, Some JSONType))"
| "decodeValue t j v = (case scalarStore t j of Some v' \<Rightarrow> (v', None) | None \<Rightarrow> (v, Some JSONType))"
| "decodeMembers fs [] vs = (vs, None)"
| "decodeMembers fs (JMember key j # ms) vs =
     (case fieldIndex fs key of
        None \<Rightarrow> (case decodeMembers fs ms vs of (vs', err) \<Rightarrow> (vs', saveError (Some (JSONUnknownField key)) err))
      | Some i \<Rightarrow>
          (case decodeValue (field_type (fs ! i)) j (vs ! i) of
             (v, err) \<Rightarrow> (case decodeMembers fs ms (vs[i := v]) of (vs', err') \<Rightarrow> (vs', saveError err err'))))"
| "decodeElements t [] existing = ([], None)"
| "decodeElements t (j # js) existing =
     (case decodeValue t j (case existing of [] \<Rightarrow> zeroOf t | x # _ \<Rightarrow> x) of
        (v, err) \<Rightarrow> (case decodeElements t js (tl existing) of (vs, err') \<Rightarrow> (v # vs, saveError err err')))"

text \<open>\<open>Decode\<close> into a zero value: what follows the first value is not looked at.\<close>

definition json_Decode :: "gotype \<Rightarrow> string \<Rightarrow> jsonError + goval" where
  "json_Decode t contents =
     (case scan BeginValue [] contents of
        None \<Rightarrow> Inl JSONSyntax
      | Some (j, rest) \<Rightarrow> (case decodeValue t j (zeroOf t) of (v, None) \<Rightarrow> Inr v | (v, Some err) \<Rightarrow> Inl err))"

section \<open>What decodes\<close>

text \<open>The JSON values a type accepts: no unknown field, and everywhere a value of the right kind or null.\<close>

fun fits :: "gotype \<Rightarrow> json \<Rightarrow> bool"
  and fitsMembers :: "gofield list \<Rightarrow> jmember list \<Rightarrow> bool"
  and fitsAll :: "gotype \<Rightarrow> json list \<Rightarrow> bool" where
  "fits t JNull = True"
| "fits t (JObject ms) = (case t of TStruct fs \<Rightarrow> fitsMembers fs ms | _ \<Rightarrow> False)"
| "fits t (JArray js) = (case t of TSlice et \<Rightarrow> fitsAll et js | _ \<Rightarrow> False)"
| "fits t j = (scalarStore t j \<noteq> None)"
| "fitsMembers fs [] = True"
| "fitsMembers fs (JMember key j # ms) =
     ((case fieldIndex fs key of None \<Rightarrow> False | Some i \<Rightarrow> fits (field_type (fs ! i)) j) \<and> fitsMembers fs ms)"
| "fitsAll t [] = True"
| "fitsAll t (j # js) = (fits t j \<and> fitsAll t js)"

lemma saveError_None [simp]: "saveError e e' = None \<longleftrightarrow> e = None \<and> e' = None"
  by (auto simp: saveError_def split: option.splits)

lemma decode_fits:
  "snd (decodeValue t j v) = None \<longleftrightarrow> fits t j"
  "snd (decodeMembers fs ms vs) = None \<longleftrightarrow> fitsMembers fs ms"
  "snd (decodeElements t js xs) = None \<longleftrightarrow> fitsAll t js"
  by (induction t j v and fs ms vs and t js xs rule: decodeValue_decodeMembers_decodeElements.induct)
     (auto simp: case_prod_unfold split: gotype.splits option.splits, (metis prod.collapse)+)

section \<open>Types are kept\<close>

text \<open>Decoding into a value of a type gives a value of that type, whatever the document holds.\<close>

fun hasType :: "gotype \<Rightarrow> goval \<Rightarrow> bool"
  and haveTypes :: "gofield list \<Rightarrow> goval list \<Rightarrow> bool" where
  "hasType TString v = (\<exists>s. v = VString s)"
| "hasType TInt v = (\<exists>i. v = VInt i)"
| "hasType TFloat v = (\<exists>f. v = VFloat f)"
| "hasType (TStruct fs) v = (case v of VStruct vs \<Rightarrow> haveTypes fs vs | _ \<Rightarrow> False)"
| "hasType (TSlice t) v = (case v of VSlice xs stale \<Rightarrow> list_all (hasType t) xs \<and> list_all (hasType t) stale | _ \<Rightarrow> False)"
| "haveTypes [] vs = (vs = [])"
| "haveTypes (GoField name t # fs) vs = (case vs of v # vs' \<Rightarrow> hasType t v \<and> haveTypes fs vs' | [] \<Rightarrow> False)"

lemma zeroOf_typed: "hasType t (zeroOf t)" "haveTypes fs (zeroFields fs)"
  by (induction t and fs rule: zeroOf_zeroFields.induct) simp_all

lemma haveTypes_iff: "haveTypes fs vs \<longleftrightarrow> list_all2 (\<lambda>f v. hasType (field_type f) v) fs vs"
proof (induction fs arbitrary: vs)
  case (Cons f fs)
  then show ?case by (cases f; cases vs) simp_all
qed auto

lemma indexOf_less: "indexOf P xs = Some i \<Longrightarrow> i < length xs"
  by (induction xs arbitrary: i) (auto split: if_splits)

lemma fieldIndex_less: "fieldIndex fs key = Some i \<Longrightarrow> i < length fs"
  by (auto simp: fieldIndex_def dest: indexOf_less split: option.splits)

lemma scalarStore_typed: "scalarStore t j = Some v \<Longrightarrow> hasType t v"
  by (auto simp: scalarStore_def split: gotype.splits json.splits)

lemma decode_typed:
  "hasType t v \<Longrightarrow> hasType t (fst (decodeValue t j v))"
  "haveTypes fs vs \<Longrightarrow> haveTypes fs (fst (decodeMembers fs ms vs))"
  "list_all (hasType t) xs \<Longrightarrow> list_all (hasType t) (fst (decodeElements t js xs))"
proof (induction t j v and fs ms vs and t js xs rule: decodeValue_decodeMembers_decodeElements.induct, goal_cases)
  case (2 t ms v)
  then show ?case by (auto simp: case_prod_unfold structOf_def split: gotype.splits goval.splits)
next
  case (3 t js v)
  have "list_all (hasType et) (drop n (sliceOf v))" if "t = TSlice et" for et n
    using 3(2) that by (auto simp: sliceOf_def list_all_iff split: goval.splits dest: in_set_dropD)
  with 3 show ?case
    by (auto simp: case_prod_unfold split: gotype.splits) (metis drop_0)+
next
  case (8 fs key j ms vs)
  show ?case
  proof (cases "fieldIndex fs key")
    case (Some i)
    let ?v = "fst (decodeValue (field_type (fs ! i)) j (vs ! i))"
    have "i < length fs" by (rule fieldIndex_less [OF Some])
    with 8(4) have "haveTypes fs (vs[i := ?v])"
      using 8(2) [OF Some] by (auto simp: haveTypes_iff list_all2_conv_all_nth nth_list_update)
    with 8(3) [OF Some prod.collapse] Some show ?thesis by (simp add: case_prod_unfold)
  qed (use 8 in \<open>simp add: case_prod_unfold\<close>)
next
  case (10 t j js xs)
  have "hasType t (case xs of [] \<Rightarrow> zeroOf t | x # _ \<Rightarrow> x)" "list_all (hasType t) (tl xs)"
    using 10(3) zeroOf_typed(1) by (cases xs; simp)+
  with 10(1) 10(2) [OF prod.collapse] show ?case by (simp add: case_prod_unfold)
qed (auto split: gotype.splits option.splits dest: scalarStore_typed)

end
