(* ===== verification/Json_Text.thy ===== *)
theory Json_Text
  imports Go_Json
begin

text \<open>
  JSON documents written out, with any white space before every token, and the proof that the
  scanner reads back from a document the value it was written from and stops right after it.
\<close>

section \<open>Writing\<close>

definition hexDigit :: "nat \<Rightarrow> char" where
  "hexDigit n = char_of (if n < 10 then 0x30 + n else 0x57 + n)"

text \<open>Quotes, backslashes and control characters are written as escapes, all other bytes as they are.\<close>

definition quoteByte :: "char \<Rightarrow> string" where
  "quoteByte c =
     (if c = CHR 0x22 \<or> c = CHR 0x5C \<or> byte c < 0x20
      then [CHR 0x5C, CHR ''u'', CHR ''0'', CHR ''0'', hexDigit (byte c div 16), hexDigit (byte c mod 16)]
      else [c])"

definition quoted :: "string \<Rightarrow> string" where
  "quoted s = concat (map quoteByte s)"

definition printNumber :: "numberLit \<Rightarrow> string" where
  "printNumber n =
     (if num_negative n then ''-'' else []) @ num_integer n @
     (case num_fraction n of None \<Rightarrow> [] | Some ds \<Rightarrow> CHR ''.'' # ds) @
     (case num_exponent n of None \<Rightarrow> [] | Some (neg, ds) \<Rightarrow> CHR ''e'' # (if neg then ''-'' else []) @ ds)"

fun printJson :: "string \<Rightarrow> json \<Rightarrow> string"
  and printMembers :: "string \<Rightarrow> jmember list \<Rightarrow> string"
  and printElements :: "string \<Rightarrow> json list \<Rightarrow> string" where
  "printJson ws JNull = ''null''"
| "printJson ws (JBool b) = (if b then ''true'' else ''false'')"
| "printJson ws (JNumber n) = printNumber n"
| "printJson ws (JString s) = CHR 0x22 # quoted s @ [CHR 0x22]"
| "printJson ws (JArray js) = CHR ''['' # printElements ws js @ ws @ '']''"
| "printJson ws (JObject ms) = CHR ''{'' # printMembers ws ms @ ws @ ''}''"
| "printMembers ws [] = []"
| "printMembers ws (JMember key j # ms) =
     ws @ CHR 0x22 # quoted key @ CHR 0x22 # ws @ CHR '':'' # ws @ printJson ws j @
     (if ms = [] then [] else ws @ CHR '','' # printMembers ws ms)"
| "printElements ws [] = []"
| "printElements ws (j # js) =
     ws @ printJson ws j @ (if js = [] then [] else ws @ CHR '','' # printElements ws js)"

section \<open>What can be written\<close>

text \<open>Valid UTF-8.\<close>

fun utf8 :: "string \<Rightarrow> bool" where
  "utf8 [] = True"
| "utf8 (c # s) =
     (let (r, width) = DecodeRune c s in \<not> (r = RuneError \<and> width = 1) \<and> utf8 (drop (width - 1) s))"

declare utf8.simps(2) [simp del]

definition digits :: "string \<Rightarrow> bool" where
  "digits ds \<longleftrightarrow> ds \<noteq> [] \<and> list_all isDigit ds"

definition wellFormed :: "numberLit \<Rightarrow> bool" where
  "wellFormed n \<longleftrightarrow>
     digits (num_integer n) \<and> (hd (num_integer n) = CHR ''0'' \<longrightarrow> num_integer n = ''0'') \<and>
     (case num_fraction n of None \<Rightarrow> True | Some ds \<Rightarrow> digits ds) \<and>
     (case num_exponent n of None \<Rightarrow> True | Some (neg, ds) \<Rightarrow> digits ds)"

fun writable :: "json \<Rightarrow> bool"
  and writableMembers :: "jmember list \<Rightarrow> bool"
  and writableAll :: "json list \<Rightarrow> bool" where
  "writable JNull = True"
| "writable (JBool b) = True"
| "writable (JNumber n) = wellFormed n"
| "writable (JString s) = utf8 s"
| "writable (JArray js) = writableAll js"
| "writable (JObject ms) = writableMembers ms"
| "writableMembers [] = True"
| "writableMembers (JMember key j # ms) = (utf8 key \<and> writable j \<and> writableMembers ms)"
| "writableAll [] = True"
| "writableAll (j # js) = (writable j \<and> writableAll js)"

fun depth :: "json \<Rightarrow> nat"
  and depthMembers :: "jmember list \<Rightarrow> nat"
  and depthAll :: "json list \<Rightarrow> nat" where
  "depth (JArray js) = Suc (depthAll js)"
| "depth (JObject ms) = Suc (depthMembers ms)"
| "depth j = 0"
| "depthMembers [] = 0"
| "depthMembers (JMember key j # ms) = max (depth j) (depthMembers ms)"
| "depthAll [] = 0"
| "depthAll (j # js) = max (depth j) (depthAll js)"

section \<open>Strings\<close>

lemma byte_eqI: "byte c = byte d \<Longrightarrow> c = d"
  by (metis byte_char)

lemma secondByte_between: "secondByte p c \<Longrightarrow> between 0x80 0xBF c"
  by (auto simp: secondByte_def between_def split: if_splits)

lemma encode_ascii: "byte c < 0x80 \<Longrightarrow> encodeRune (byte c) = [c]"
  by (simp add: encodeRune_def)

lemma last_digit:
  fixes d k m :: nat
  assumes "d < m"
  shows "(d + k * m) div m = k" "(d + k * m) mod m = d"
  using assms by simp_all

lemma radix:
  fixes a b d :: nat
  assumes "b < 64" "d < 64"
  shows "(a * 4096 + b * 64 + d) div 4096 = a" "(a * 4096 + b * 64 + d) div 64 mod 64 = b"
    "(a * 4096 + b * 64 + d) mod 64 = d"
proof -
  have n: "a * 4096 + b * 64 + d = d + (b + a * 64) * 64" by simp
  note digits = last_digit [OF assms(2), of "b + a * 64"] last_digit [OF assms(1), of a]
  show "(a * 4096 + b * 64 + d) mod 64 = d" "(a * 4096 + b * 64 + d) div 64 mod 64 = b"
    by (simp_all only: n digits)
  have "(d + (b + a * 64) * 64) div (64 * 64) = a" by (simp only: div_mult2_eq digits)
  then show "(a * 4096 + b * 64 + d) div 4096 = a" unfolding n by simp
qed

lemma encodeRune_two:
  assumes "a < 32" "b < 64" "0x80 \<le> a * 64 + b"
  shows "encodeRune (a * 64 + b) = [char_of (0xC0 + a), char_of (0x80 + b)]"
proof -
  define r where "r = a * 64 + b"
  have "r div 64 = a" "r mod 64 = b" using last_digit [OF assms(2), of a] by (simp_all add: r_def add.commute)
  moreover have "0x80 \<le> r" "r < 0x800" using assms by (simp_all add: r_def)
  ultimately show ?thesis unfolding r_def [symmetric] by (simp add: encodeRune_def)
qed

lemma encodeRune_three:
  assumes "a < 16" "b < 64" "d < 64" "0x800 \<le> a * 4096 + b * 64 + d"
    and surrogate: "a = 0xD \<longrightarrow> b < 0x20"
  shows "encodeRune (a * 4096 + b * 64 + d) = [char_of (0xE0 + a), char_of (0x80 + b), char_of (0x80 + d)]"
proof -
  define r where "r = a * 4096 + b * 64 + d"
  have parts: "r div 4096 = a" "r div 64 mod 64 = b" "r mod 64 = d"
    unfolding r_def using radix [OF assms(2,3)] by simp_all
  have "a < 0xD \<or> a = 0xD \<or> 0xE \<le> a" by linarith
  with surrogate assms have low: "0x800 \<le> r" "r < 0x10000" "\<not> (0xD800 \<le> r \<and> r \<le> 0xDFFF)"
    unfolding r_def by linarith+
  then have "\<not> r < 0x80" "\<not> r < 0x800" "\<not> 0x10FFFF < r" by linarith+
  with low show ?thesis unfolding r_def [symmetric] by (auto simp: encodeRune_def parts)
qed

lemma encodeRune_four:
  assumes "a < 8" "b < 64" "d < 64" "e < 64"
    and range: "0x10 \<le> a * 64 + b" "a * 64 + b \<le> 0x10F"
  shows "encodeRune (a * 262144 + b * 4096 + d * 64 + e) =
    [char_of (0xF0 + a), char_of (0x80 + b), char_of (0x80 + d), char_of (0x80 + e)]"
proof -
  define q where "q = a * 64 + b"
  define r where "r = a * 262144 + b * 4096 + d * 64 + e"
  have r: "r = q * 4096 + d * 64 + e" by (simp add: r_def q_def)
  have q: "q div 64 = a" "q mod 64 = b" using last_digit [OF assms(2), of a] by (simp_all add: q_def add.commute)
  have parts: "r div 4096 = q" "r div 64 mod 64 = d" "r mod 64 = e"
    unfolding r using radix [OF assms(3,4)] by simp_all
  have "r div (4096 * 64) = a" unfolding div_mult2_eq parts by (rule q)
  then have top: "r div 262144 = a" by simp
  have low: "0x10000 \<le> r" "r \<le> 0x10FFFF" using range assms(3,4) unfolding r q_def [symmetric] by linarith+
  then have "\<not> r < 0x80" "\<not> r < 0x800" "\<not> r < 0x10000" "\<not> r \<le> 0xDFFF" by linarith+
  with low show ?thesis unfolding r_def [symmetric] by (simp add: encodeRune_def parts top q)
qed

lemma three_range:
  fixes p x y :: nat
  assumes "0xE0 \<le> p" "p = 0xE0 \<longrightarrow> 0xA0 \<le> x" "p = 0xED \<longrightarrow> x \<le> 0x9F"
  shows "0x800 \<le> (p - 0xE0) * 4096 + (x - 0x80) * 64 + y" "p - 0xE0 = 0xD \<longrightarrow> x - 0x80 < 0x20"
proof -
  show "0x800 \<le> (p - 0xE0) * 4096 + (x - 0x80) * 64 + y"
  proof (cases "p = 0xE0")
    case False
    with assms(1) have "1 \<le> p - 0xE0" by linarith
    then show ?thesis by linarith
  qed (use assms in linarith)
  show "p - 0xE0 = 0xD \<longrightarrow> x - 0x80 < 0x20" using assms by linarith
qed

lemma four_range:
  fixes p x :: nat
  assumes "0xF0 \<le> p" "p \<le> 0xF4" "p = 0xF0 \<longrightarrow> 0x90 \<le> x" "p = 0xF4 \<longrightarrow> x \<le> 0x8F" "x \<le> 0xBF"
  shows "0x10 \<le> (p - 0xF0) * 64 + (x - 0x80)" "(p - 0xF0) * 64 + (x - 0x80) \<le> 0x10F"
proof -
  consider "p = 0xF0" | "p = 0xF4" | "1 \<le> p - 0xF0" "p - 0xF0 \<le> 3" using assms by linarith
  then show "0x10 \<le> (p - 0xF0) * 64 + (x - 0x80)" "(p - 0xF0) * 64 + (x - 0x80) \<le> 0x10F"
    using assms by (cases; linarith)+
qed

text \<open>Encoding gives back the bytes a rune was decoded from.\<close>

lemma continuation: "between 0x80 0xBF c \<Longrightarrow> char_of (0x80 + byte c mod 64) = c"
  using mod_window [of 2 64 "byte c"] by (simp add: between_def)

lemma encodeRune_DecodeRune:
  assumes "DecodeRune c s = (r, width)" and "\<not> (r = RuneError \<and> width = 1)"
  shows "encodeRune r = c # take (width - 1) s"
proof -
  consider "byte c < 0x80" "r = byte c" "width = 1"
    | c1 s' where "0xC2 \<le> byte c" "byte c \<le> 0xDF" "s = c1 # s'" "secondByte (byte c) c1"
        "r = (byte c mod 32) * 64 + byte c1 mod 64" "width = 2"
    | c1 c2 s' where "0xE0 \<le> byte c" "byte c \<le> 0xEF" "s = c1 # c2 # s'" "secondByte (byte c) c1" "between 0x80 0xBF c2"
        "r = (byte c mod 16) * 4096 + (byte c1 mod 64) * 64 + byte c2 mod 64" "width = 3"
    | c1 c2 c3 s' where "0xF0 \<le> byte c" "byte c \<le> 0xF4" "s = c1 # c2 # c3 # s'" "secondByte (byte c) c1"
        "between 0x80 0xBF c2" "between 0x80 0xBF c3"
        "r = (byte c mod 8) * 262144 + (byte c1 mod 64) * 4096 + (byte c2 mod 64) * 64 + byte c3 mod 64" "width = 4"
    using assms unfolding DecodeRune_def Let_def by (simp split: if_splits list.splits)
  then show ?thesis
  proof cases
    case 1
    then show ?thesis by (simp add: encodeRune_def)
  next
    case 2
    have m: "byte c mod 32 = byte c - 0xC0" using mod_window [of 6 32 "byte c"] 2 by simp
    have "encodeRune r = [char_of (0xC0 + byte c mod 32), char_of (0x80 + byte c1 mod 64)]"
      unfolding 2(5) using m 2 by (intro encodeRune_two) simp_all
    moreover have "char_of (0xC0 + byte c mod 32) = c" using 2(1) unfolding m by simp
    ultimately show ?thesis by (simp add: 2(3,6) continuation [OF secondByte_between [OF 2(4)]])
  next
    case 3
    have m: "byte c mod 16 = byte c - 0xE0" using mod_window [of 14 16 "byte c"] 3 by simp
    have m1: "byte c1 mod 64 = byte c1 - 0x80"
      using mod_window [of 2 64 "byte c1"] secondByte_between [OF 3(4)] by (simp add: between_def)
    have "(byte c = 0xE0 \<longrightarrow> 0xA0 \<le> byte c1) \<and> (byte c = 0xED \<longrightarrow> byte c1 \<le> 0x9F)" "0x80 \<le> byte c1"
      using 3(4) by (auto simp: secondByte_def between_def split: if_splits)
    with 3(1,2) have "0x800 \<le> byte c mod 16 * 4096 + byte c1 mod 64 * 64 + byte c2 mod 64"
      "byte c mod 16 = 0xD \<longrightarrow> byte c1 mod 64 < 0x20"
      unfolding m m1 by - (rule three_range; blast)+
    then have "encodeRune r = [char_of (0xE0 + byte c mod 16), char_of (0x80 + byte c1 mod 64), char_of (0x80 + byte c2 mod 64)]"
      unfolding 3(6) by (intro encodeRune_three) simp_all
    moreover have "char_of (0xE0 + byte c mod 16) = c" using 3(1) unfolding m by simp
    ultimately show ?thesis
      by (simp add: 3(3,7) continuation [OF secondByte_between [OF 3(4)]] continuation [OF 3(5)])
  next
    case 4
    have m: "byte c mod 8 = byte c - 0xF0" using mod_window [of 30 8 "byte c"] 4 by simp
    have m1: "byte c1 mod 64 = byte c1 - 0x80"
      using mod_window [of 2 64 "byte c1"] secondByte_between [OF 4(4)] by (simp add: between_def)
    have "(byte c = 0xF0 \<longrightarrow> 0x90 \<le> byte c1) \<and> (byte c = 0xF4 \<longrightarrow> byte c1 \<le> 0x8F)" "0x80 \<le> byte c1" "byte c1 \<le> 0xBF"
      using 4(4) by (auto simp: secondByte_def between_def split: if_splits)
    with 4(1,2) have "0x10 \<le> byte c mod 8 * 64 + byte c1 mod 64" "byte c mod 8 * 64 + byte c1 mod 64 \<le> 0x10F"
      unfolding m m1 by - (rule four_range; blast)+
    then have "encodeRune r = [char_of (0xF0 + byte c mod 8), char_of (0x80 + byte c1 mod 64),
        char_of (0x80 + byte c2 mod 64), char_of (0x80 + byte c3 mod 64)]"
      unfolding 4(7) by (intro encodeRune_four) simp_all
    moreover have "char_of (0xF0 + byte c mod 8) = c" using 4(1) unfolding m by simp
    ultimately show ?thesis
      by (simp add: 4(3,8) continuation [OF secondByte_between [OF 4(4)]] continuation [OF 4(5)] continuation [OF 4(6)])
  qed
qed

declare scanString.simps(2) [simp del]

lemma hexValue_hexDigit: "n < 16 \<Longrightarrow> hexValue (hexDigit n) = Some n"
  by (auto simp: hexValue_def hexDigit_def between_def)

lemma scanString_plain:
  assumes "c \<noteq> CHR 0x22" "c \<noteq> CHR 0x5C" "0x20 \<le> byte c" and "DecodeRune c s = (r, width)"
  shows "scanString (c # s) = map_option (\<lambda>(t, u). (encodeRune r @ t, u)) (scanString (drop (width - 1) s))"
  using assms by (simp add: scanString.simps(2))

lemma scanString_escape:
  assumes "byte c < 0x80"
  shows "scanString ([CHR 0x5C, CHR ''u'', CHR ''0'', CHR ''0'', hexDigit (byte c div 16), hexDigit (byte c mod 16)] @ s) =
    map_option (\<lambda>(t, u). (c # t, u)) (scanString s)"
proof -
  have "hexValue (CHR ''0'') = Some 0" by (simp add: hexValue_def between_def)
  moreover have "hexValue (hexDigit (byte c div 16)) = Some (byte c div 16)" "hexValue (hexDigit (byte c mod 16)) = Some (byte c mod 16)"
    using assms by (intro hexValue_hexDigit; simp)+
  ultimately have hex: "hex4 (CHR ''0'' # CHR ''0'' # hexDigit (byte c div 16) # hexDigit (byte c mod 16) # s) = Some (byte c, s)"
    by simp
  have esc: "unicodeEscape (byte c) s = ([c], s)"
    using assms by (simp add: unicodeEscape_def highSurrogate_def encode_ascii split: list.split)
  show ?thesis by (simp add: scanString.simps(2) [of "CHR 0x5C"] simpleEscape_def hex esc del: hex4.simps)
qed

lemma quoted_high: "\<forall>c \<in> set s. 0x80 \<le> byte c \<Longrightarrow> quoted s = s"
  by (induction s) (auto simp: quoted_def quoteByte_def)

lemma quoted_append: "quoted (s @ t) = quoted s @ quoted t"
  by (simp add: quoted_def)

lemma scanString_quoted: "utf8 s \<Longrightarrow> scanString (quoted s @ CHR 0x22 # rest) = Some (s, rest)"
proof (induction s rule: utf8.induct)
  case 1
  then show ?case by (simp add: quoted_def scanString.simps(2))
next
  case (2 c s)
  obtain r width where d: "DecodeRune c s = (r, width)" by fastforce
  with 2(2) have valid: "\<not> (r = RuneError \<and> width = 1)" and tail: "utf8 (drop (width - 1) s)"
    by (auto simp: utf8.simps(2))
  have IH: "scanString (quoted (drop (width - 1) s) @ CHR 0x22 # rest) = Some (drop (width - 1) s, rest)"
    using 2(1) tail d by simp
  note enc = encodeRune_DecodeRune [OF d valid]
  from d show ?case
  proof (cases rule: DecodeRune_cases)
    case ascii
    have q: "quoted (c # s) @ CHR 0x22 # rest = quoteByte c @ quoted s @ CHR 0x22 # rest" by (simp add: quoted_def)
    show ?thesis
    proof (cases "c = CHR 0x22 \<or> c = CHR 0x5C \<or> byte c < 0x20")
      case True
      then show ?thesis unfolding q
        using scanString_escape [of c "quoted s @ CHR 0x22 # rest"] ascii IH by (simp add: quoteByte_def)
    next
      case False
      moreover have "DecodeRune c (quoted s @ CHR 0x22 # rest) = (byte c, 1)" using ascii by (simp add: DecodeRune_def)
      ultimately show ?thesis unfolding q
        using ascii IH by (simp add: quoteByte_def scanString_plain encode_ascii)
    qed
  next
    case invalid
    with valid show ?thesis by simp
  next
    case multi
    let ?h = "take (width - 1) s" and ?t = "quoted (drop (width - 1) s) @ CHR 0x22 # rest"
    have "quoted s = ?h @ quoted (drop (width - 1) s)"
      using quoted_append [of ?h "drop (width - 1) s"] quoted_high [OF multi(5)] by simp
    moreover from multi(1) have "c \<noteq> CHR 0x22" "c \<noteq> CHR 0x5C" "0x20 \<le> byte c" by auto
    ultimately have "scanString (quoted (c # s) @ CHR 0x22 # rest) =
        map_option (\<lambda>(t, u). (encodeRune r @ t, u)) (scanString (drop (width - 1) (?h @ ?t)))"
      using scanString_plain [OF _ _ _ multi(6) [of ?t]] by (simp add: quoted_def quoteByte_def)
    also have "drop (width - 1) (?h @ ?t) = ?t" using multi(4) by simp
    finally show ?thesis using IH enc by simp
  qed
qed

section \<open>Numbers\<close>

text \<open>A text after which a number has ended.\<close>

definition stops :: "string \<Rightarrow> bool" where
  "stops s \<longleftrightarrow> s = [] \<or> \<not> isDigit (hd s) \<and> hd s \<noteq> CHR ''.'' \<and> hd s \<noteq> CHR ''e'' \<and> hd s \<noteq> CHR ''E''"

lemma span_digits:
  assumes "list_all isDigit ds" and "s = [] \<or> \<not> isDigit (hd s)"
  shows "takeWhile isDigit (ds @ s) = ds" "dropWhile isDigit (ds @ s) = s"
  using assms by (cases s; auto simp: list_all_iff takeWhile_append dropWhile_append)+

lemma not_digit [simp]:
  "\<not> isDigit (CHR ''.'')" "\<not> isDigit (CHR ''e'')" "\<not> isDigit (CHR ''-'')" "\<not> isDigit (CHR ''+'')" "isDigit (CHR ''0'')"
  by (simp_all add: isDigit_def between_def)

lemma digits_hd: "digits ds \<Longrightarrow> isDigit (hd (ds @ s))"
  by (cases ds) (auto simp: digits_def)

lemma scanExponent_print:
  assumes "stops rest" and "case ex of None \<Rightarrow> True | Some (neg, ds) \<Rightarrow> digits ds"
  shows "scanExponent neg ds f ((case ex of None \<Rightarrow> [] | Some (neg, ds) \<Rightarrow> CHR ''e'' # (if neg then ''-'' else []) @ ds) @ rest) =
    Some (NumberLit neg ds f ex, rest)"
proof (cases ex)
  case None
  with assms show ?thesis by (auto simp: scanExponent_def stops_def split: list.split)
next
  case (Some e)
  obtain sign es where e: "e = (sign, es)" by fastforce
  with assms Some have "digits es" by simp
  then have "list_all isDigit es" "es \<noteq> []" "hd (es @ rest) \<noteq> CHR ''-''" "hd (es @ rest) \<noteq> CHR ''+''"
    using digits_hd [of es rest] not_digit by (auto simp: digits_def simp del: not_digit)
  moreover have "rest = [] \<or> \<not> isDigit (hd rest)" using assms(1) by (auto simp: stops_def)
  ultimately show ?thesis
    using span_digits [of es rest] by (auto simp: Some e scanExponent_def Let_def)
qed

lemma scanFraction_print:
  assumes "stops rest" and "case f of None \<Rightarrow> True | Some ds \<Rightarrow> digits ds"
    and ex: "case ex of None \<Rightarrow> True | Some (neg, ds) \<Rightarrow> digits ds"
  shows "scanFraction neg ds ((case f of None \<Rightarrow> [] | Some ds \<Rightarrow> CHR ''.'' # ds) @
      (case ex of None \<Rightarrow> [] | Some (neg, ds) \<Rightarrow> CHR ''e'' # (if neg then ''-'' else []) @ ds) @ rest) =
    Some (NumberLit neg ds f ex, rest)"
proof -
  let ?e = "(case ex of None \<Rightarrow> [] | Some (neg, ds) \<Rightarrow> CHR ''e'' # (if neg then ''-'' else []) @ ds) @ rest"
  have E: "?e = [] \<or> \<not> isDigit (hd ?e) \<and> hd ?e \<noteq> CHR ''.''"
    using assms(1) by (auto simp: stops_def split: option.split)
  note scan = scanExponent_print [OF assms(1) ex]
  show ?thesis
  proof (cases f)
    case None
    with E scan [of neg ds None] show ?thesis by (auto simp: scanFraction_def)
  next
    case (Some fs)
    with assms(2) have fs: "list_all isDigit fs" "fs \<noteq> []" by (simp_all add: digits_def)
    have "?e = [] \<or> \<not> isDigit (hd ?e)" using E by blast
    with Some fs scan [of neg ds "Some fs"] span_digits [OF fs(1) this] show ?thesis
      by (simp add: scanFraction_def Let_def)
  qed
qed

text \<open>The scanner reads a number back, up to the end of its digits.\<close>

lemma scanNumber_print:
  assumes "wellFormed n" and "stops rest"
  shows "scanNumber (printNumber n @ rest) = Some (n, rest)"
proof -
  obtain neg ds f ex where n: "n = NumberLit neg ds f ex" by (cases n)
  let ?t = "(case f of None \<Rightarrow> [] | Some ds \<Rightarrow> CHR ''.'' # ds) @
      (case ex of None \<Rightarrow> [] | Some (neg, ds) \<Rightarrow> CHR ''e'' # (if neg then ''-'' else []) @ ds) @ rest"
  have wf: "digits ds" "hd ds = CHR ''0'' \<longrightarrow> ds = ''0''"
    and scan: "scanFraction neg ds ?t = Some (n, rest)"
    using assms scanFraction_print [OF assms(2), of f ex] by (simp_all add: n wellFormed_def)
  have stop: "?t = [] \<or> \<not> isDigit (hd ?t)"
    using assms(2) by (auto simp: stops_def split: option.split)
  obtain d ds' where ds: "ds = d # ds'" "isDigit d" using wf(1) by (cases ds) (auto simp: digits_def)
  have span: "takeWhile isDigit (ds @ ?t) = ds" "dropWhile isDigit (ds @ ?t) = ?t"
    using wf(1) stop by (intro span_digits; simp add: digits_def)+
  have int: "scanInteger neg (ds @ ?t) = scanFraction neg ds ?t" for neg
  proof (cases "d = CHR ''0''")
    case True
    with wf(2) ds show ?thesis by (simp add: scanInteger_def)
  next
    case False
    with span ds show ?thesis by (simp add: scanInteger_def)
  qed
  have "d \<noteq> CHR ''-''" using ds(2) by auto
  then show ?thesis using int scan ds by (auto simp: n printNumber_def scanNumber_def)
qed

section \<open>Documents\<close>

declare scan.simps [simp del]

definition blank :: "string \<Rightarrow> bool" where
  "blank ws \<longleftrightarrow> list_all isSpace ws"

lemma skipSpace_blank: "blank ws \<Longrightarrow> \<not> isSpace c \<Longrightarrow> skipSpace (ws @ c # s) = c # s"
  by (simp add: blank_def skipSpace_def list_all_iff dropWhile_append)

lemma not_space [simp]:
  "\<not> isSpace (CHR '','')" "\<not> isSpace (CHR '':'')" "\<not> isSpace (CHR ''['')" "\<not> isSpace (CHR '']'')"
  "\<not> isSpace (CHR ''{'')" "\<not> isSpace (CHR ''}'')" "\<not> isSpace (CHR 0x22)" "\<not> isSpace (CHR ''-'')"
  "\<not> isSpace (CHR ''n'')" "\<not> isSpace (CHR ''t'')" "\<not> isSpace (CHR ''f'')"
  by (simp_all add: isSpace_def)

lemma digit_not_space: "isDigit c \<Longrightarrow> \<not> isSpace c"
  by (auto simp: isDigit_def isSpace_def between_def)

lemma stops_blank:
  assumes "blank ws" and "stops s"
  shows "stops (ws @ s)"
proof (cases ws)
  case (Cons c ws')
  with assms have "isSpace c" by (simp add: blank_def)
  then have "\<not> isDigit c" "c \<noteq> CHR ''.''" "c \<noteq> CHR ''e''" "c \<noteq> CHR ''E''"
    using digit_not_space by (auto simp: isSpace_def)
  with Cons show ?thesis by (simp add: stops_def)
qed (simp add: assms)

lemma stops_closing [simp]: "stops (CHR '','' # s)" "stops (CHR '']'' # s)" "stops (CHR ''}'' # s)"
  by (simp_all add: stops_def isDigit_def between_def)

lemma printNumber_Cons:
  assumes "wellFormed n"
  obtains c t where "printNumber n = c # t" "c = CHR ''-'' \<or> isDigit c"
proof -
  from assms have "digits (num_integer n)" by (simp add: wellFormed_def)
  then obtain d ds where "num_integer n = d # ds" "isDigit d" by (cases "num_integer n") (auto simp: digits_def)
  then show thesis using that by (cases "num_negative n") (auto simp: printNumber_def)
qed

text \<open>Scalars.\<close>

definition scalar :: "json \<Rightarrow> bool" where
  "scalar j = (case j of JArray _ \<Rightarrow> False | JObject _ \<Rightarrow> False | _ \<Rightarrow> True)"

lemma literal_print:
  "scanScalar (''null'' @ s) = Some (JNull, s)" "scanScalar (''true'' @ s) = Some (JBool True, s)"
  "scanScalar (''false'' @ s) = Some (JBool False, s)"
  by (simp_all add: scanScalar_def scanLiteral_def literals_def isDigit_def between_def)

lemma scalar_print:
  assumes "scalar j" "writable j" "stops rest"
  obtains c t where "printJson ws j @ rest = c # t" "\<not> isSpace c" "c \<notin> {CHR ''{'', CHR ''['', CHR '']'', CHR ''}''}"
    "scanScalar (c # t) = Some (j, rest)"
proof (cases j)
  case JNull
  with literal_print(1) [of rest] show ?thesis by (intro that) simp_all
next
  case (JBool b)
  with literal_print(2,3) [of rest] show ?thesis by (cases b) (intro that; simp)+
next
  case (JNumber n)
  with assms have n: "wellFormed n" by simp
  obtain c t where p: "printNumber n = c # t" "c = CHR ''-'' \<or> isDigit c" by (rule printNumber_Cons [OF n])
  have "c \<noteq> CHR 0x22 \<and> \<not> isSpace c \<and> c \<notin> {CHR ''{'', CHR ''['', CHR '']'', CHR ''}''}"
    using p(2) digit_not_space by (auto simp: isDigit_def between_def)
  with p scanNumber_print [OF n assms(3)] JNumber show ?thesis
    by (intro that [of c "t @ rest"]) (auto simp: scanScalar_def)
next
  case (JString s)
  with assms have "utf8 s" by simp
  with JString scanString_quoted [of s rest] show ?thesis by (intro that) (auto simp: scanScalar_def)
qed (use assms in \<open>simp_all add: scalar_def\<close>)

lemma printJson_Cons:
  assumes "writable j"
  shows "\<exists>c t. printJson ws j @ rest = c # t \<and> \<not> isSpace c \<and> c \<noteq> CHR '']''"
proof (cases j)
  case (JNumber n)
  with assms obtain c t where "printNumber n = c # t" "c = CHR ''-'' \<or> isDigit c" using printNumber_Cons by auto
  with JNumber digit_not_space show ?thesis by (auto simp: isDigit_def between_def)
qed auto

lemma scan_scalar:
  assumes "scalar j" "writable j" "stops rest" "blank ws"
  shows "scan BeginValue fs (ws @ printJson ws j @ rest) = scan (EndValue j) fs rest"
proof -
  obtain c t where "printJson ws j @ rest = c # t" "\<not> isSpace c" "c \<notin> {CHR ''{'', CHR ''['', CHR '']'', CHR ''}''}"
    "scanScalar (c # t) = Some (j, rest)" by (rule scalar_print [OF assms(1-3)])
  with assms(4) show ?thesis by (simp add: scan.simps skipSpace_blank)
qed

lemma scan_spaced:
  assumes "blank ws" "\<not> isSpace c"
  shows "scan BeginValue fs (ws @ c # s) = scan BeginValue fs (c # s)"
proof -
  have "skipSpace (ws @ c # s) = skipSpace (c # s)"
    using assms skipSpace_blank [of "[]" c s] by (simp add: skipSpace_blank blank_def)
  then show ?thesis by (subst (1 2) scan.simps(7)) simp
qed

lemma scan_first:
  assumes "blank ws" "\<not> isSpace c" "c \<noteq> CHR '']''"
  shows "scan BeginValueOrEmpty fs (ws @ c # s) = scan BeginValue fs (ws @ c # s)"
  unfolding scan_spaced [OF assms(1,2)] using assms by (subst scan.simps(6)) (simp add: skipSpace_blank)

lemma scan_key:
  assumes "utf8 key" "blank ws"
  shows "scan (BeginKey acc closable) fs (ws @ CHR 0x22 # quoted key @ CHR 0x22 # ws @ CHR '':'' # s) =
    scan BeginValue (InObject acc key # fs) s"
  using assms by (simp add: scan.simps skipSpace_blank scanString_quoted)

text \<open>Where the last value of a list ends, and where the next one begins.\<close>

lemma scan_array_end:
  assumes "blank ws"
  shows "scan (EndValue j) (InArray js # fs) (ws @ CHR '']'' # s) = scan (EndValue (JArray (rev (j # js)))) fs s"
    "scan (EndValue j) (InArray js # fs) (ws @ CHR '','' # s) = scan BeginValue (InArray (j # js) # fs) s"
  using assms by (simp_all add: scan.simps skipSpace_blank)

lemma scan_object_end:
  assumes "blank ws"
  shows "scan (EndValue j) (InObject ms k # fs) (ws @ CHR ''}'' # s) = scan (EndValue (JObject (rev (JMember k j # ms)))) fs s"
    "scan (EndValue j) (InObject ms k # fs) (ws @ CHR '','' # s) = scan (BeginKey (JMember k j # ms) False) fs s"
  using assms by (simp_all add: scan.simps skipSpace_blank)

text \<open>A document is read back, and the scanner stands right behind it.\<close>

lemma scan_print:
  "writable j \<Longrightarrow> blank ws \<Longrightarrow> length fs + depth j \<le> maxNestingDepth \<Longrightarrow> scalar j \<longrightarrow> stops rest \<Longrightarrow>
     scan BeginValue fs (ws @ printJson ws j @ rest) = scan (EndValue j) fs rest"
  "writableMembers ms \<Longrightarrow> blank ws \<Longrightarrow> Suc (length fs) + depthMembers ms \<le> maxNestingDepth \<Longrightarrow> ms \<noteq> [] \<Longrightarrow>
     scan (BeginKey acc closable) fs (printMembers ws ms @ ws @ CHR ''}'' # rest) =
     scan (EndValue (JObject (rev acc @ ms))) fs rest"
  "writableAll js \<Longrightarrow> blank ws \<Longrightarrow> Suc (length fs) + depthAll js \<le> maxNestingDepth \<Longrightarrow> js \<noteq> [] \<Longrightarrow>
     scan BeginValue (InArray elems # fs) (printElements ws js @ ws @ CHR '']'' # rest) =
     scan (EndValue (JArray (rev elems @ js))) fs rest"
proof (induction ws j and ws ms and ws js arbitrary: fs rest and fs rest acc closable and fs rest elems
    rule: printJson_printMembers_printElements.induct)
  case (5 ws js)
  have open_array: "scan BeginValue fs (ws @ CHR ''['' # s) = scan BeginValueOrEmpty (InArray [] # fs) s" for s
    using 5 by (simp add: scan.simps skipSpace_blank)
  show ?case
  proof (cases js)
    case Nil
    with 5 open_array show ?thesis by (simp add: scan.simps skipSpace_blank)
  next
    case (Cons j js')
    with 5 obtain c t where c: "printJson ws j @ (if js' = [] then [] else ws @ CHR '','' # printElements ws js') @ ws @ CHR '']'' # rest = c # t"
      "\<not> isSpace c" "c \<noteq> CHR '']''" using printJson_Cons [of j] by (metis writable.simps(5) writableAll.simps(2))
    have "scan BeginValueOrEmpty (InArray [] # fs) (ws @ c # t) = scan BeginValue (InArray [] # fs) (ws @ c # t)"
      using c 5(3) by (intro scan_first)
    with 5 open_array Cons c(1) [symmetric] show ?thesis by simp
  qed
next
  case (6 ws ms)
  have "scan BeginValue fs (ws @ CHR ''{'' # s) = scan (BeginKey [] True) fs s" for s
    using 6 by (simp add: scan.simps skipSpace_blank)
  with 6 show ?case by (cases "ms = []") (simp_all add: scan.simps skipSpace_blank)
next
  case (8 ws key j ms)
  let ?rest = "if ms = [] then ws @ CHR ''}'' # rest else ws @ CHR '','' # printMembers ws ms @ ws @ CHR ''}'' # rest"
  have "scan (BeginKey acc closable) fs (printMembers ws (JMember key j # ms) @ ws @ CHR ''}'' # rest) =
      scan BeginValue (InObject acc key # fs) (ws @ printJson ws j @ ?rest)"
    using 8 scan_key [of key ws acc closable fs] by auto
  also have "\<dots> = scan (EndValue j) (InObject acc key # fs) ?rest"
    using 8 by (intro 8(1)) (auto intro: stops_blank)
  also have "\<dots> = scan (EndValue (JObject (rev acc @ JMember key j # ms))) fs rest"
    using 8 by (auto simp: scan_object_end)
  finally show ?case .
next
  case (10 ws j js)
  let ?rest = "if js = [] then ws @ CHR '']'' # rest else ws @ CHR '','' # printElements ws js @ ws @ CHR '']'' # rest"
  have "scan BeginValue (InArray elems # fs) (printElements ws (j # js) @ ws @ CHR '']'' # rest) =
      scan BeginValue (InArray elems # fs) (ws @ printJson ws j @ ?rest)" by auto
  also have "\<dots> = scan (EndValue j) (InArray elems # fs) ?rest"
    using 10 by (intro 10(1)) (auto intro: stops_blank)
  also have "\<dots> = scan (EndValue (JArray (rev elems @ j # js))) fs rest"
    using 10 by (auto simp: scan_array_end)
  finally show ?case .
qed (auto simp: scan_scalar scalar_def simp del: printJson.simps)

section \<open>Literals of Go numbers\<close>

text \<open>Literals that write an integer, and exactly the value of a finite float.\<close>

definition intLit :: "64 word \<Rightarrow> numberLit" where
  "intLit i = NumberLit (sint i < 0) (showNat (nat \<bar>sint i\<bar>)) None None"

definition significand :: "64 word \<Rightarrow> nat" where
  "significand v = (if exponent v = 0 then fraction v else 2 ^ 52 + fraction v)"

definition scale :: "64 word \<Rightarrow> int" where
  "scale v = (if exponent v = 0 then -1074 else int (exponent v) - 1075)"

definition floatLit :: "64 word \<Rightarrow> numberLit" where
  "floatLit v =
     (if 0 \<le> scale v then NumberLit (negative v) (showNat (significand v * 2 ^ nat (scale v))) None None
      else NumberLit (negative v) (showNat (significand v * 5 ^ nat (- scale v))) None
             (Some (True, showNat (nat (- scale v)))))"

lemma digit_isDigit: "n < 10 \<Longrightarrow> isDigit (digit n)" "n < 10 \<Longrightarrow> byte (digit n) - 0x30 = n"
  by (simp_all add: digit_def isDigit_def between_def)

lemma decimal_snoc: "decimal (ds @ [c]) = decimal ds * 10 + (byte c - 0x30)"
  by (simp add: decimal_def)

lemma decimal_showNat [simp]: "decimal (showNat n) = n"
proof (induction n rule: showNat.induct)
  case (1 n)
  then show ?case
    by (cases "n < 10") (simp_all add: showNat.simps [of n] decimal_snoc digit_isDigit, simp add: decimal_def digit_isDigit)
qed

lemma showNat_digits: "digits (showNat n)"
proof (induction n rule: showNat.induct)
  case (1 n)
  then show ?case by (cases "n < 10") (auto simp: showNat.simps [of n] digits_def digit_isDigit)
qed

lemma showNat_leading: "n \<noteq> 0 \<Longrightarrow> hd (showNat n) \<noteq> CHR ''0''"
proof (induction n rule: showNat.induct)
  case (1 n)
  show ?case
  proof (cases "n < 10")
    case True
    with 1(2) have "byte (digit n) \<noteq> byte (CHR ''0'')" by (simp add: digit_def)
    with True show ?thesis by (auto simp: showNat.simps [of n])
  next
    case False
    moreover have "showNat (n div 10) \<noteq> []" using showNat_digits by (simp add: digits_def)
    ultimately show ?thesis using 1 by (simp add: showNat.simps [of n])
  qed
qed

lemma showNat_zero: "showNat 0 = ''0''"
  by code_simp

lemma showNat_wellFormed: "hd (showNat n) = CHR ''0'' \<longrightarrow> showNat n = ''0''"
  by (cases "n = 0") (simp_all add: showNat_leading showNat_zero)

lemma literals_wellFormed: "wellFormed (intLit i)" "wellFormed (floatLit v)"
  by (simp_all add: wellFormed_def intLit_def floatLit_def showNat_digits showNat_wellFormed)

lemma ParseInt_intLit: "ParseInt (intLit i) = Some i"
proof -
  have "- (2 ^ 63) \<le> sint i" "sint i < 2 ^ 63"
    using sint_range_size [of i] by (simp_all add: word_size)
  moreover have "(if sint i < 0 then - int (nat \<bar>sint i\<bar>) else int (nat \<bar>sint i\<bar>)) = sint i" by simp
  ultimately show ?thesis by (simp add: ParseInt_def intLit_def Let_def)
qed

lemma magnitude_floatLit: "magnitude (floatLit v) = of_nat (significand v) * 2 powi scale v"
proof (cases "0 \<le> scale v")
  case True
  then show ?thesis by (simp add: magnitude_def floatLit_def power_int_def)
next
  case False
  then have "rat_of_nat (significand v * 5 ^ nat (- scale v)) * 10 powi scale v =
      of_nat (significand v) * ((5 ^ nat (- scale v)) * inverse (10 ^ nat (- scale v)))"
    by (simp add: power_int_def power_inverse power_one_over inverse_eq_divide)
  also have "(5 :: rat) ^ nat (- scale v) * inverse (10 ^ nat (- scale v)) = inverse (2 ^ nat (- scale v))"
    using power_mult_distrib [of "2 :: rat" 5 "nat (- scale v)"] by (simp add: field_simps)
  also have "\<dots> = 2 powi scale v" using False by (simp add: power_int_def power_one_over inverse_eq_divide)
  finally show ?thesis using False by (simp add: magnitude_def floatLit_def)
qed

lemma binade_eq:
  assumes "2 powi e \<le> x" "x < 2 powi (e + 1)"
  shows "binade x = e"
proof -
  have pos: "0 < x" using assms(1) pow2_pos [of e] by (rule less_le_trans [rotated])
  then have "binade x \<le> e" using assms(2) by (rule binade_le)
  moreover have "e \<le> binade x"
  proof (rule ccontr)
    assume "\<not> e \<le> binade x"
    then have "(2 :: rat) powi (binade x + 1) \<le> 2 powi e" by (intro pow2_mono) simp
    with binade_bounds(2) [OF pos] assms(1) show False by linarith
  qed
  ultimately show ?thesis by simp
qed

lemma normal_binade:
  assumes "2 ^ 52 \<le> m" "m < 2 ^ 53"
  shows "binade (of_nat m * 2 powi j) = 52 + j"
proof (rule binade_eq)
  have "(2 :: rat) ^ 52 \<le> of_nat m" "rat_of_nat m < 2 ^ 53"
    using assms by (metis of_nat_le_iff of_nat_numeral of_nat_power, metis of_nat_less_iff of_nat_numeral of_nat_power)
  moreover have "(2 :: rat) powi (52 + j) = 2 ^ 52 * 2 powi j" "(2 :: rat) powi (52 + j + 1) = 2 ^ 53 * 2 powi j"
    using power_int_add [of "2 :: rat" 52 j] power_int_add [of "2 :: rat" 53 j] by (simp_all add: add.commute)
  ultimately show "2 powi (52 + j) \<le> of_nat m * (2 :: rat) powi j" "of_nat m * (2 :: rat) powi j < 2 powi (52 + j + 1)"
    by (simp_all only: mult_right_mono mult_strict_right_mono pow2_pos less_imp_le)
qed

lemma subnormal_binade:
  assumes "m \<noteq> 0" "m < 2 ^ 52"
  shows "binade (of_nat m * 2 powi (-1074)) < -1022"
proof -
  have "rat_of_nat m < 2 ^ 52" using assms(2) by (metis of_nat_less_iff of_nat_numeral of_nat_power)
  then have "of_nat m * (2 :: rat) powi (-1074) < 2 ^ 52 * 2 powi (-1074)" by (rule mult_strict_right_mono) simp
  also have "\<dots> = 2 powi (-1023 + 1)" using power_int_add [of "2 :: rat" 52 "-1074"] by simp
  finally have "binade (of_nat m * 2 powi (-1074)) \<le> -1023" using assms(1) by (intro binade_le) simp_all
  then show ?thesis by simp
qed

text \<open>The literal of a finite float parses to its bit pattern, the sign of zero included.\<close>

lemma packFloat_value: "packFloat (negative v) (of_nat (significand v) * 2 powi scale v) = v"
proof -
  have v: "v = of_nat ((if negative v then 2 ^ 63 else 0) + exponent v * 2 ^ 52 + fraction v)"
    unfolding float_split [of v, symmetric] by simp
  have scaled: "of_nat n * 2 powi j * 2 powi (- j) = rat_of_nat n" for n j
    by (simp add: mult.assoc power_int_minus)
  show ?thesis
  proof (cases "exponent v = 0")
    case True
    let ?x = "rat_of_nat (fraction v) * 2 powi (-1074)"
    have x: "of_nat (significand v) * 2 powi scale v = ?x" using True by (simp add: significand_def scale_def)
    show ?thesis
    proof (cases "fraction v = 0")
      case True
      with v \<open>exponent v = 0\<close> show ?thesis unfolding x by (simp add: packFloat_def Let_def)
    next
      case False
      then have "binade ?x < -1022" using float_parts(2) [of v] by (rule subnormal_binade)
      moreover have "\<lfloor>?x * 2 powi 1074\<rfloor> = int (fraction v)" using scaled [of "fraction v" "-1074"] by simp
      moreover have "?x \<noteq> 0" using False by simp
      ultimately show ?thesis unfolding x using v True by (simp add: packFloat_def Let_def del: mult_eq_0_iff)
    qed
  next
    case False
    let ?m = "2 ^ 52 + fraction v" and ?j = "int (exponent v) - 1075"
    let ?x = "rat_of_nat ?m * 2 powi ?j"
    have x: "of_nat (significand v) * 2 powi scale v = ?x" using False by (simp add: significand_def scale_def)
    have b: "binade ?x = 52 + ?j" using float_parts(2) [of v] by (intro normal_binade) simp_all
    have neg: "52 - (52 + ?j) = - ?j" by simp
    have "\<lfloor>?x * 2 powi (52 - (52 + ?j))\<rfloor> = int ?m" unfolding neg scaled by (rule floor_of_nat)
    moreover have "?x \<noteq> 0" by (simp add: add_pos_nonneg)
    moreover have "\<not> 52 + ?j < -1022" "nat (52 + ?j + 1023) = exponent v" using False by simp_all
    ultimately have "packFloat (negative v) ?x =
        of_nat ((if negative v then 2 ^ 63 else 0) + exponent v * 2 ^ 52 + (nat (int ?m) - 2 ^ 52))"
      by (simp only: packFloat_def Let_def b if_False)
    moreover have "nat (int ?m) - 2 ^ 52 = fraction v" by simp
    ultimately show ?thesis unfolding x by (simp only: v [symmetric])
  qed
qed

lemma ParseFloat_floatLit:
  assumes "exponent v \<noteq> 2047"
  shows "ParseFloat (floatLit v) = Some v"
proof -
  let ?x = "of_int (int (significand v)) * (2 :: rat) powi scale v"
  have s: "int (significand v) < 2 ^ 53" "-1074 \<le> scale v" "scale v \<le> 971"
    using float_parts [of v] assms by (auto simp: significand_def scale_def)
  then have "representable ?x" by (intro representableI) simp_all
  then have "fround ?x = ?x" by (rule ieee.fixed)
  moreover have "?x < 2 ^ 1024" using s by (intro scaled_finite) simp_all
  ultimately have "ParseFloat (floatLit v) = Some (packFloat (negative v) (of_nat (significand v) * 2 powi scale v))"
    by (simp add: ParseFloat_def magnitude_floatLit Let_def) (simp add: floatLit_def)
  then show ?thesis by (simp only: packFloat_value)
qed

end
