(* ===== verification/Bench_Decode.thy ===== *)
theory Bench_Decode
  imports Bench_Charts Json_Text
begin

text \<open>
  How the chart tool reads its dataset: the struct types of
  \<^verbatim>\<open>internal/testutil/cmd/benchcharts/main.go\<close> as the decoder of \<^verbatim>\<open>encoding/json\<close> sees them, with
  their tags, and the decoding of \<open>loadDataset\<close>. The theory shows that exactly the documents
  without unknown fields and without values of a wrong kind decode, and that a document that
  spells out a dataset under the names of its schema decodes to that dataset.
\<close>

section \<open>Types\<close>

definition environmentType :: gotype where
  "environmentType = TStruct
     [GoField ''host'' TString, GoField ''os'' TString, GoField ''architecture'' TString,
      GoField ''logical_cpus'' TInt, GoField ''go_version'' TString, GoField ''cgo_compiler'' TString]"

definition backendStringsType :: gotype where
  "backendStringsType = TStruct [GoField ''cgo'' TString, GoField ''no_cgo'' TString]"

definition methodologyType :: gotype where
  "methodologyType = TStruct
     [GoField ''run_count'' TInt, GoField ''benchtime'' TString, GoField ''commands'' backendStringsType,
      GoField ''raw_results'' backendStringsType, GoField ''rss_commands'' backendStringsType,
      GoField ''size_commands'' backendStringsType]"

definition unitsType :: gotype where
  "unitsType = TStruct
     [GoField ''latency'' TString, GoField ''allocated_bytes'' TString, GoField ''cold_rss'' TString,
      GoField ''binary_size'' TString]"

definition benchmarkMedianType :: gotype where
  "benchmarkMedianType = TStruct
     [GoField ''latency_ns_per_op_median'' TFloat, GoField ''allocated_bytes_per_op_median'' TFloat]"

definition complexityCaseType :: gotype where
  "complexityCaseType = TStruct
     [GoField ''id'' TString, GoField ''label'' TString, GoField ''order'' TInt,
      GoField ''cgo'' benchmarkMedianType, GoField ''no_cgo'' benchmarkMedianType]"

definition footprintMedianType :: gotype where
  "footprintMedianType = TStruct
     [GoField ''cold_rss_bytes_median'' TFloat, GoField ''stripped_binary_size_bytes'' TFloat]"

definition footprintType :: gotype where
  "footprintType = TStruct
     [GoField ''workload'' TString, GoField ''run_count'' TInt, GoField ''raw_results'' backendStringsType,
      GoField ''cgo'' footprintMedianType, GoField ''no_cgo'' footprintMedianType]"

definition datasetType :: gotype where
  "datasetType = TStruct
     [GoField ''schema_version'' TInt, GoField ''measurement_date'' TString,
      GoField ''environment'' environmentType, GoField ''methodology'' methodologyType,
      GoField ''units'' unitsType, GoField ''cases'' (TSlice complexityCaseType),
      GoField ''footprint'' footprintType]"

section \<open>Values\<close>

text \<open>The records of Go values of these types, field by field in the order of the declarations.\<close>

definition asString :: "goval \<Rightarrow> string" where
  "asString v = (case v of VString s \<Rightarrow> s | _ \<Rightarrow> [])"

definition asInt :: "goval \<Rightarrow> 64 word" where
  "asInt v = (case v of VInt i \<Rightarrow> i | _ \<Rightarrow> 0)"

definition asFloat :: "goval \<Rightarrow> 64 word" where
  "asFloat v = (case v of VFloat f \<Rightarrow> f | _ \<Rightarrow> 0)"

definition asSlice :: "goval \<Rightarrow> goval list" where
  "asSlice v = (case v of VSlice xs stale \<Rightarrow> xs | _ \<Rightarrow> [])"

definition field :: "nat \<Rightarrow> goval \<Rightarrow> goval" where
  "field i v = structOf v ! i"

definition toEnvironment :: "goval \<Rightarrow> environment" where
  "toEnvironment v =
     \<lparr>Host = asString (field 0 v), OS = asString (field 1 v), Architecture = asString (field 2 v),
      LogicalCPUs = asInt (field 3 v), GoVersion = asString (field 4 v), CGOCompiler = asString (field 5 v)\<rparr>"

definition toBackendStrings :: "goval \<Rightarrow> backendStrings" where
  "toBackendStrings v = \<lparr>strings_CGO = asString (field 0 v), strings_NoCGO = asString (field 1 v)\<rparr>"

definition toMethodology :: "goval \<Rightarrow> methodology" where
  "toMethodology v =
     \<lparr>RunCount = asInt (field 0 v), Benchtime = asString (field 1 v), Commands = toBackendStrings (field 2 v),
      RawResults = toBackendStrings (field 3 v), RSSCommands = toBackendStrings (field 4 v),
      SizeCommands = toBackendStrings (field 5 v)\<rparr>"

definition toUnits :: "goval \<Rightarrow> units" where
  "toUnits v =
     \<lparr>unit_Latency = asString (field 0 v), unit_AllocatedBytes = asString (field 1 v),
      unit_ColdRSS = asString (field 2 v), unit_BinarySize = asString (field 3 v)\<rparr>"

definition toBenchmarkMedian :: "goval \<Rightarrow> benchmarkMedian" where
  "toBenchmarkMedian v = \<lparr>Latency = asFloat (field 0 v), AllocatedBytes = asFloat (field 1 v)\<rparr>"

definition toComplexityCase :: "goval \<Rightarrow> complexityCase" where
  "toComplexityCase v =
     \<lparr>case_ID = asString (field 0 v), Label = asString (field 1 v), Order = asInt (field 2 v),
      case_CGO = toBenchmarkMedian (field 3 v), case_NoCGO = toBenchmarkMedian (field 4 v)\<rparr>"

definition toFootprintMedian :: "goval \<Rightarrow> footprintMedian" where
  "toFootprintMedian v = \<lparr>ColdRSS = asFloat (field 0 v), BinarySize = asFloat (field 1 v)\<rparr>"

definition toFootprint :: "goval \<Rightarrow> footprint" where
  "toFootprint v =
     \<lparr>Workload = asString (field 0 v), foot_RunCount = asInt (field 1 v),
      foot_RawResults = toBackendStrings (field 2 v), foot_CGO = toFootprintMedian (field 3 v),
      foot_NoCGO = toFootprintMedian (field 4 v)\<rparr>"

definition toDataset :: "goval \<Rightarrow> dataset" where
  "toDataset v =
     \<lparr>SchemaVersion = asInt (field 0 v), MeasurementDate = asString (field 1 v),
      Environment = toEnvironment (field 2 v), Methodology = toMethodology (field 3 v),
      Units = toUnits (field 4 v), Cases = map toComplexityCase (asSlice (field 5 v)),
      Footprint = toFootprint (field 6 v)\<rparr>"

text \<open>\<open>Decode\<close> with \<open>DisallowUnknownFields\<close> into a zero \<open>dataset\<close>.\<close>

definition decodeDataset :: "string \<Rightarrow> jsonError + dataset" where
  "decodeDataset contents = map_sum id toDataset (json_Decode datasetType contents)"

section \<open>Documents of the schema\<close>

text \<open>A dataset spelled out as JSON, under the names its consumers use.\<close>

definition intJson :: "64 word \<Rightarrow> json" where
  "intJson i = JNumber (intLit i)"

definition floatJson :: "64 word \<Rightarrow> json" where
  "floatJson v = JNumber (floatLit v)"

definition object :: "(string \<times> json) list \<Rightarrow> json" where
  "object ms = JObject (map (\<lambda>(k, j). JMember k j) ms)"

definition environmentJson :: "environment \<Rightarrow> json" where
  "environmentJson e = object
     [(''host'', JString (Host e)), (''os'', JString (OS e)), (''architecture'', JString (Architecture e)),
      (''logical_cpus'', intJson (LogicalCPUs e)), (''go_version'', JString (GoVersion e)),
      (''cgo_compiler'', JString (CGOCompiler e))]"

definition backendsJson :: "backendStrings \<Rightarrow> json" where
  "backendsJson s = object [(''cgo'', JString (strings_CGO s)), (''no_cgo'', JString (strings_NoCGO s))]"

definition methodologyJson :: "methodology \<Rightarrow> json" where
  "methodologyJson m = object
     [(''run_count'', intJson (RunCount m)), (''benchtime'', JString (Benchtime m)),
      (''commands'', backendsJson (Commands m)), (''raw_results'', backendsJson (RawResults m)),
      (''rss_commands'', backendsJson (RSSCommands m)), (''size_commands'', backendsJson (SizeCommands m))]"

definition unitsJson :: "units \<Rightarrow> json" where
  "unitsJson u = object
     [(''latency'', JString (unit_Latency u)), (''allocated_bytes'', JString (unit_AllocatedBytes u)),
      (''cold_rss'', JString (unit_ColdRSS u)), (''binary_size'', JString (unit_BinarySize u))]"

definition medianJson :: "benchmarkMedian \<Rightarrow> json" where
  "medianJson b = object
     [(''latency_ns_per_op_median'', floatJson (Latency b)),
      (''allocated_bytes_per_op_median'', floatJson (AllocatedBytes b))]"

definition caseJson :: "complexityCase \<Rightarrow> json" where
  "caseJson c = object
     [(''id'', JString (case_ID c)), (''label'', JString (Label c)), (''order'', intJson (Order c)),
      (''cgo'', medianJson (case_CGO c)), (''no_cgo'', medianJson (case_NoCGO c))]"

definition footprintMedianJson :: "footprintMedian \<Rightarrow> json" where
  "footprintMedianJson f = object
     [(''cold_rss_bytes_median'', floatJson (ColdRSS f)), (''stripped_binary_size_bytes'', floatJson (BinarySize f))]"

definition footprintJson :: "footprint \<Rightarrow> json" where
  "footprintJson f = object
     [(''workload'', JString (Workload f)), (''run_count'', intJson (foot_RunCount f)),
      (''raw_results'', backendsJson (foot_RawResults f)), (''cgo'', footprintMedianJson (foot_CGO f)),
      (''no_cgo'', footprintMedianJson (foot_NoCGO f))]"

definition datasetJson :: "dataset \<Rightarrow> json" where
  "datasetJson d = object
     [(''schema_version'', intJson (SchemaVersion d)), (''measurement_date'', JString (MeasurementDate d)),
      (''environment'', environmentJson (Environment d)), (''methodology'', methodologyJson (Methodology d)),
      (''units'', unitsJson (Units d)), (''cases'', JArray (map caseJson (Cases d))),
      (''footprint'', footprintJson (Footprint d))]"

text \<open>The texts and measurements of a dataset, and what JSON can express of them.\<close>

definition backendTexts :: "backendStrings \<Rightarrow> string list" where
  "backendTexts s = [strings_CGO s, strings_NoCGO s]"

definition texts :: "dataset \<Rightarrow> string list" where
  "texts d =
     MeasurementDate d #
     (let e = Environment d in [Host e, OS e, Architecture e, GoVersion e, CGOCompiler e]) @
     (let m = Methodology d in
        Benchtime m # concat (map backendTexts [Commands m, RawResults m, RSSCommands m, SizeCommands m])) @
     (let u = Units d in [unit_Latency u, unit_AllocatedBytes u, unit_ColdRSS u, unit_BinarySize u]) @
     concat (map (\<lambda>c. [case_ID c, Label c]) (Cases d)) @
     Workload (Footprint d) # backendTexts (foot_RawResults (Footprint d))"

definition caseMeasurements :: "complexityCase \<Rightarrow> 64 word list" where
  "caseMeasurements c =
     [Latency (case_CGO c), AllocatedBytes (case_CGO c), Latency (case_NoCGO c), AllocatedBytes (case_NoCGO c)]"

definition measurements :: "dataset \<Rightarrow> 64 word list" where
  "measurements d =
     concat (map caseMeasurements (Cases d)) @
     (let f = Footprint d in [ColdRSS (foot_CGO f), BinarySize (foot_CGO f), ColdRSS (foot_NoCGO f), BinarySize (foot_NoCGO f)])"

definition expressible :: "dataset \<Rightarrow> bool" where
  "expressible d \<longleftrightarrow> list_all utf8 (texts d) \<and> list_all (\<lambda>v. exponent v \<noteq> 2047) (measurements d)"

section \<open>Decoding of the documents\<close>

text \<open>A document decodes, from the zero value of a type, to a value that is read as the given one.\<close>

definition decodesTo :: "gotype \<Rightarrow> json \<Rightarrow> (goval \<Rightarrow> 'a) \<Rightarrow> 'a \<Rightarrow> bool" where
  "decodesTo t j read x \<longleftrightarrow> (\<exists>v. decodeValue t j (zeroOf t) = (v, None) \<and> read v = x)"

lemma scalar_decode [simp]:
  "scalarStore TString (JString s) = Some (VString s)"
  "decodeValue TInt (intJson i) v = (VInt i, None)"
  "exponent f \<noteq> 2047 \<Longrightarrow> decodeValue TFloat (floatJson f) v = (VFloat f, None)"
  by (simp_all add: scalarStore_def intJson_def floatJson_def ParseInt_intLit ParseFloat_floatLit)

lemma object_decode [simp]:
  "decodeValue (TStruct fs) (object ms) v =
     (case decodeMembers fs (map (\<lambda>(k, j). JMember k j) ms) (structOf v) of (vs, err) \<Rightarrow> (VStruct vs, err))"
  by (simp add: object_def)

lemma read_field [simp]:
  "field i (VStruct vs) = vs ! i" "asString (VString s) = s" "asInt (VInt n) = n" "asFloat (VFloat f) = f"
  "asSlice (VSlice xs stale) = xs" "structOf (VStruct vs) = vs"
  by (simp_all add: field_def structOf_def asString_def asInt_def asFloat_def asSlice_def)

lemmas decoding = decodesTo_def fieldIndex_def saveError_def

lemma backends_decode: "decodesTo backendStringsType (backendsJson s) toBackendStrings s"
  by (simp add: decoding backendStringsType_def backendsJson_def toBackendStrings_def)

lemma environment_decode: "decodesTo environmentType (environmentJson e) toEnvironment e"
  by (simp add: decoding environmentType_def environmentJson_def toEnvironment_def)

lemma methodology_decode: "decodesTo methodologyType (methodologyJson m) toMethodology m"
  using backends_decode [of "Commands m"] backends_decode [of "RawResults m"]
    backends_decode [of "RSSCommands m"] backends_decode [of "SizeCommands m"]
  by (clarsimp simp: decoding) (simp add: methodologyType_def methodologyJson_def toMethodology_def fieldIndex_def saveError_def)

lemma units_decode: "decodesTo unitsType (unitsJson u) toUnits u"
  by (simp add: decoding unitsType_def unitsJson_def toUnits_def)

lemma median_decode:
  "exponent (Latency b) \<noteq> 2047 \<Longrightarrow> exponent (AllocatedBytes b) \<noteq> 2047 \<Longrightarrow>
   decodesTo benchmarkMedianType (medianJson b) toBenchmarkMedian b"
  by (simp add: decoding benchmarkMedianType_def medianJson_def toBenchmarkMedian_def)

lemma footprintMedian_decode:
  "exponent (ColdRSS f) \<noteq> 2047 \<Longrightarrow> exponent (BinarySize f) \<noteq> 2047 \<Longrightarrow>
   decodesTo footprintMedianType (footprintMedianJson f) toFootprintMedian f"
  by (simp add: decoding footprintMedianType_def footprintMedianJson_def toFootprintMedian_def)

lemma case_decode:
  assumes "list_all (\<lambda>v. exponent v \<noteq> 2047) (caseMeasurements c)"
  shows "decodesTo complexityCaseType (caseJson c) toComplexityCase c"
proof -
  obtain v w where "decodeValue benchmarkMedianType (medianJson (case_CGO c)) (zeroOf benchmarkMedianType) = (v, None)"
    "decodeValue benchmarkMedianType (medianJson (case_NoCGO c)) (zeroOf benchmarkMedianType) = (w, None)"
    "toBenchmarkMedian v = case_CGO c" "toBenchmarkMedian w = case_NoCGO c"
    using assms median_decode [of "case_CGO c"] median_decode [of "case_NoCGO c"]
    by (auto simp: decodesTo_def caseMeasurements_def)
  then show ?thesis by (simp add: decoding complexityCaseType_def caseJson_def toComplexityCase_def)
qed

lemma footprint_decode:
  assumes "exponent (ColdRSS (foot_CGO f)) \<noteq> 2047" "exponent (BinarySize (foot_CGO f)) \<noteq> 2047"
    "exponent (ColdRSS (foot_NoCGO f)) \<noteq> 2047" "exponent (BinarySize (foot_NoCGO f)) \<noteq> 2047"
  shows "decodesTo footprintType (footprintJson f) toFootprint f"
proof -
  obtain u v w where "decodeValue backendStringsType (backendsJson (foot_RawResults f)) (zeroOf backendStringsType) = (u, None)"
    "decodeValue footprintMedianType (footprintMedianJson (foot_CGO f)) (zeroOf footprintMedianType) = (v, None)"
    "decodeValue footprintMedianType (footprintMedianJson (foot_NoCGO f)) (zeroOf footprintMedianType) = (w, None)"
    "toBackendStrings u = foot_RawResults f" "toFootprintMedian v = foot_CGO f" "toFootprintMedian w = foot_NoCGO f"
    using assms footprintMedian_decode [of "foot_CGO f"] footprintMedian_decode [of "foot_NoCGO f"] backends_decode [of "foot_RawResults f"]
    by (auto simp: decodesTo_def)
  then show ?thesis by (simp add: decoding footprintType_def footprintJson_def toFootprint_def)
qed

lemma cases_decode:
  assumes "list_all (\<lambda>v. exponent v \<noteq> 2047) (concat (map caseMeasurements cs))"
  shows "\<exists>vs. decodeElements complexityCaseType (map caseJson cs) [] = (vs, None) \<and> map toComplexityCase vs = cs"
  using assms
proof (induction cs)
  case (Cons c cs)
  then obtain vs where "decodeElements complexityCaseType (map caseJson cs) [] = (vs, None)" "map toComplexityCase vs = cs" by auto
  moreover obtain v where "decodeValue complexityCaseType (caseJson c) (zeroOf complexityCaseType) = (v, None)" "toComplexityCase v = c"
    using Cons.prems case_decode [of c] by (auto simp: decodesTo_def)
  ultimately show ?case by (simp add: saveError_def)
qed simp

lemma slice_decode:
  assumes "list_all (\<lambda>v. exponent v \<noteq> 2047) (concat (map caseMeasurements cs))"
  shows "decodesTo (TSlice complexityCaseType) (JArray (map caseJson cs)) (map toComplexityCase \<circ> asSlice) cs"
  using cases_decode [OF assms] by (auto simp: decodesTo_def sliceOf_def)

lemma dataset_decode:
  assumes "expressible d"
  shows "decodesTo datasetType (datasetJson d) toDataset d"
proof -
  from assms have finite: "list_all (\<lambda>v. exponent v \<noteq> 2047) (measurements d)" by (simp add: expressible_def)
  then have "decodesTo footprintType (footprintJson (Footprint d)) toFootprint (Footprint d)"
    by (intro footprint_decode) (simp_all add: measurements_def Let_def)
  moreover have "decodesTo (TSlice complexityCaseType) (JArray (map caseJson (Cases d))) (map toComplexityCase \<circ> asSlice) (Cases d)"
    using finite by (intro slice_decode) (simp add: measurements_def)
  ultimately obtain e m u c f where
    "decodeValue environmentType (environmentJson (Environment d)) (zeroOf environmentType) = (e, None)"
    "toEnvironment e = Environment d"
    "decodeValue methodologyType (methodologyJson (Methodology d)) (zeroOf methodologyType) = (m, None)"
    "toMethodology m = Methodology d"
    "decodeValue unitsType (unitsJson (Units d)) (zeroOf unitsType) = (u, None)" "toUnits u = Units d"
    "decodeValue (TSlice complexityCaseType) (JArray (map caseJson (Cases d))) (zeroOf (TSlice complexityCaseType)) = (c, None)"
    "map toComplexityCase (asSlice c) = Cases d"
    "decodeValue footprintType (footprintJson (Footprint d)) (zeroOf footprintType) = (f, None)"
    "toFootprint f = Footprint d"
    using environment_decode [of "Environment d"] methodology_decode [of "Methodology d"] units_decode [of "Units d"]
    unfolding decodesTo_def comp_def by blast
  then show ?thesis
    by (simp add: decoding datasetType_def datasetJson_def toDataset_def del: decodeValue.simps(3))
qed

lemma utf8_ascii: "list_all (\<lambda>c. byte c < 0x80) s \<Longrightarrow> utf8 s"
  by (induction s) (auto simp: utf8.simps(2) DecodeRune_def RuneError_def)

lemma writable_object: "writable (object ms) \<longleftrightarrow> list_all (\<lambda>(k, j). utf8 k \<and> writable j) ms"
  by (induction ms) (auto simp: object_def)

lemma writable_array: "writableAll js \<longleftrightarrow> list_all writable js"
  by (induction js) simp_all

lemma writable_number [simp]: "writable (intJson i)" "writable (floatJson v)"
  by (simp_all add: intJson_def floatJson_def literals_wellFormed)

lemma depth_number [simp]: "depth (intJson i) = 0" "depth (floatJson v) = 0"
  by (simp_all add: intJson_def floatJson_def)

lemmas documents = environmentJson_def backendsJson_def methodologyJson_def unitsJson_def medianJson_def
  caseJson_def footprintMedianJson_def footprintJson_def

lemma dataset_writable:
  assumes "expressible d"
  shows "writable (datasetJson d)"
proof -
  have strings: "list_all utf8 (texts d)" using assms by (simp add: expressible_def)
  have "list_all (writable \<circ> caseJson) (Cases d)"
    using strings by (auto simp: texts_def Let_def documents writable_object utf8_ascii list_all_iff)
  then show ?thesis
    using strings by (simp add: texts_def backendTexts_def Let_def documents datasetJson_def writable_object
        writable_array utf8_ascii list.pred_map)
qed

lemma depth_cases: "depthAll (map caseJson cs) \<le> 2"
  by (induction cs) (simp_all add: documents object_def)

lemma dataset_depth: "depth (datasetJson d) \<le> 4"
  using depth_cases [of "Cases d"] by (simp add: datasetJson_def documents object_def)

lemma dataset_object: "\<not> scalar (datasetJson d)"
  by (simp add: datasetJson_def object_def scalar_def)

lemma decodeDataset_print:
  assumes "expressible d" and "blank ws"
  shows "decodeDataset (ws @ printJson ws (datasetJson d) @ rest) = Inr d"
proof -
  have "scan BeginValue [] (ws @ printJson ws (datasetJson d) @ rest) = Some (datasetJson d, rest)"
    using dataset_writable [OF assms(1)] assms(2) dataset_depth [of d] dataset_object [of d]
    by (simp add: scan_print(1) scan.simps(1) maxNestingDepth_def)
  with dataset_decode [OF assms(1)] show ?thesis
    by (auto simp: decodeDataset_def json_Decode_def decodesTo_def)
qed

text \<open>
  Exactly the documents that fit the type decode: every member of every object is a field of
  its struct, and every value is null or of the kind of its field.
\<close>

lemma decodeDataset_strict:
  "(\<exists>d. decodeDataset contents = Inr d) \<longleftrightarrow>
     (\<exists>j rest. scan BeginValue [] contents = Some (j, rest) \<and> fits datasetType j)"
proof (cases "scan BeginValue [] contents")
  case (Some p)
  obtain j rest where p: "p = (j, rest)" by fastforce
  obtain v err where d: "decodeValue datasetType j (zeroOf datasetType) = (v, err)" by fastforce
  then have "err = None \<longleftrightarrow> fits datasetType j" using decode_fits(1) [of datasetType j "zeroOf datasetType"] by simp
  with Some p d show ?thesis by (cases err) (simp_all add: decodeDataset_def json_Decode_def)
qed (simp add: decodeDataset_def json_Decode_def)

section \<open>Properties\<close>


lemma sample_expressible: "expressible sampleDataset"
  by (simp add: expressible_def texts_def measurements_def caseMeasurements_def backendTexts_def
      sampleDataset_def sampleCase_def exponent_def utf8_ascii Let_def)


end
