(* ===== verification/Bench_Main.thy ===== *)
theory Bench_Main
  imports Bench_Render Bench_Decode "HOL-Library.List_Lexorder" "HOL-Library.Char_ord"
begin

text \<open>
  The program around the charts: \<open>main\<close>, \<open>loadDataset\<close> and \<open>fatal\<close> of
  \<^verbatim>\<open>internal/testutil/cmd/benchcharts/main.go\<close>. The operating system is a record of actions on an
  arbitrary world, every call of which is recorded; the parsed command line and the order in
  which a Go map is iterated are parameters. The theory shows which files a
  run writes, in which order, and that a run that fails says so once and last.
\<close>

section \<open>Calls\<close>

text \<open>The errors \<open>main\<close> reports; those of the operating system are their text.\<close>

datatype benchError =
    ErrFlags | ErrRead string | ErrDecode jsonError | ErrDataset datasetError | ErrMkdir string
  | ErrWrite string string

datatype osCall =
    CallReadFile string | CallMkdirAll string | CallWriteFile string string | CallStderr benchError

record 'w os =
  os_ReadFile :: "string \<Rightarrow> ('w, string + string) act"
  os_MkdirAll :: "string \<Rightarrow> ('w, string option) act"
  os_WriteFile :: "string \<Rightarrow> string \<Rightarrow> ('w, string option) act"
  os_Stderr :: "benchError \<Rightarrow> ('w, unit) act"

type_synonym ('w, 'a) tool = "(('w, osCall) sys, 'a) eff"

text \<open>How the process ends: \<open>main\<close> returns, or \<open>os.Exit\<close> is called with a code.\<close>

datatype exit = Finished | Exited nat

section \<open>Paths\<close>

text \<open>\<open>filepath.Clean\<close> and \<open>filepath.Join\<close> of two non-empty elements, with \<^verbatim>\<open>/\<close> as the separator.\<close>

fun splitSlash :: "string \<Rightarrow> string list" where
  "splitSlash [] = [[]]"
| "splitSlash (c # s) =
     (if c = CHR 0x2F then [] # splitSlash s
      else case splitSlash s of p # ps \<Rightarrow> (c # p) # ps | [] \<Rightarrow> [[c]])"

text \<open>The cleaned elements so far are kept last first.\<close>

fun cleanParts :: "bool \<Rightarrow> string list \<Rightarrow> string list \<Rightarrow> string list" where
  "cleanParts rooted done [] = done"
| "cleanParts rooted done (p # ps) =
     (if p = [] \<or> p = ''.'' then cleanParts rooted done ps
      else if p = ''..'' then
        (case done of
           d # ds \<Rightarrow> if d = ''..'' then cleanParts rooted (p # done) ps else cleanParts rooted ds ps
         | [] \<Rightarrow> cleanParts rooted (if rooted then [] else [p]) ps)
      else cleanParts rooted (p # done) ps)"

fun joinSlash :: "string list \<Rightarrow> string" where
  "joinSlash [] = []"
| "joinSlash [p] = p"
| "joinSlash (p # ps) = p @ ''/'' @ joinSlash ps"

definition filepath_Clean :: "string \<Rightarrow> string" where
  "filepath_Clean path =
     (let rooted = (path \<noteq> [] \<and> hd path = CHR 0x2F);
          parts = rev (cleanParts rooted [] (splitSlash path))
      in if rooted then ''/'' @ joinSlash parts
         else if parts = [] then ''.'' else joinSlash parts)"

definition filepath_Join :: "string \<Rightarrow> string \<Rightarrow> string" where
  "filepath_Join dir name = filepath_Clean (dir @ ''/'' @ name)"

section \<open>The code\<close>

definition fatal :: "'w os \<Rightarrow> benchError \<Rightarrow> ('w, exit) tool" where
  "fatal os err = bindE (extcall (CallStderr err) (os_Stderr os err)) (\<lambda>_. retE (Exited 1))"

definition loadDataset ::
    "'w os \<Rightarrow> string \<Rightarrow> ('w, benchError + dataset) tool" where
  "loadDataset os path =
     bindE (extcall (CallReadFile path) (os_ReadFile os path)) (\<lambda>result.
       case result of
         Inl err \<Rightarrow> retE (Inl (ErrRead err))
       | Inr contents \<Rightarrow>
           (case decodeDataset contents of
              Inl err \<Rightarrow> retE (Inl (ErrDecode err))
            | Inr input \<Rightarrow>
                (case dataset_validate input of
                   Some err \<Rightarrow> retE (Inl (ErrDataset err))
                 | None \<Rightarrow> retE (Inr input))))"

text \<open>The loop over the sorted names. A missing key of a Go map reads as nil.\<close>

definition chartOf :: "(string \<times> string) list \<Rightarrow> string \<Rightarrow> string" where
  "chartOf charts name = (case map_of charts name of Some chart \<Rightarrow> chart | None \<Rightarrow> [])"

fun writeCharts :: "'w os \<Rightarrow> string \<Rightarrow> (string \<times> string) list \<Rightarrow> string list \<Rightarrow> ('w, exit) tool" where
  "writeCharts os outDir charts [] = retE Finished"
| "writeCharts os outDir charts (name # rest) =
     (let path = filepath_Join outDir name; chart = chartOf charts name
      in bindE (extcall (CallWriteFile path chart) (os_WriteFile os path chart)) (\<lambda>result.
           case result of
             Some err \<Rightarrow> fatal os (ErrWrite name err)
           | None \<Rightarrow> writeCharts os outDir charts rest))"

definition bench_main ::
    "'w os \<Rightarrow> (string list \<Rightarrow> string list) \<Rightarrow> string \<Rightarrow> string \<Rightarrow> ('w, exit) tool" where
  "bench_main os iterate dataPath outDir =
     (if dataPath = '''' \<or> outDir = '''' then fatal os ErrFlags
      else bindE (loadDataset os dataPath) (\<lambda>loaded.
        case loaded of
          Inl err \<Rightarrow> fatal os err
        | Inr input \<Rightarrow>
            (case renderCharts input of
               Inl err \<Rightarrow> fatal os (ErrDataset err)
             | Inr charts \<Rightarrow>
                 bindE (extcall (CallMkdirAll outDir) (os_MkdirAll os outDir)) (\<lambda>made.
                   case made of
                     Some err \<Rightarrow> fatal os (ErrMkdir err)
                   | None \<Rightarrow> writeCharts os outDir charts (sort (iterate (map fst charts)))))))"

section \<open>Paths of one directory\<close>

lemma splitSlash_name: "CHR 0x2F \<notin> set name \<Longrightarrow> splitSlash name = [name]"
  by (induction name) auto

lemma splitSlash_nonempty [simp]: "splitSlash s \<noteq> []"
  by (induction s) (auto split: list.split)

lemma splitSlash_append:
  "CHR 0x2F \<notin> set name \<Longrightarrow> splitSlash (dir @ ''/'' @ name) = splitSlash dir @ [name]"
  by (induction dir) (auto simp: splitSlash_name split: list.split)

lemma cleanParts_name:
  "name \<noteq> [] \<Longrightarrow> name \<noteq> ''.'' \<Longrightarrow> name \<noteq> ''..'' \<Longrightarrow>
   cleanParts rooted acc (ps @ [name]) = name # cleanParts rooted acc ps"
  by (induction rooted acc ps rule: cleanParts.induct) (auto split: list.split)

lemma joinSlash_snoc: "joinSlash (ps @ [name]) = (if ps = [] then [] else joinSlash ps @ ''/'') @ name"
  by (induction ps rule: joinSlash.induct) auto

text \<open>Joining a directory with a plain file name puts the same prefix before every name.\<close>

definition dirPrefix :: "string \<Rightarrow> string" where
  "dirPrefix dir =
     (let rooted = (hd (dir @ ''/'') = CHR 0x2F); parts = rev (cleanParts rooted [] (splitSlash dir))
      in (if rooted then ''/'' else []) @ (if parts = [] then [] else joinSlash parts @ ''/''))"

lemma filepath_Join_prefix:
  assumes "CHR 0x2F \<notin> set name" and "name \<noteq> []" "name \<noteq> ''.''" "name \<noteq> ''..''"
  shows "filepath_Join dir name = dirPrefix dir @ name"
proof -
  have "hd (dir @ CHR 0x2F # name) = hd (dir @ ''/'')" by (cases dir) simp_all
  then show ?thesis
    using splitSlash_append [OF assms(1), of dir]
    by (simp add: filepath_Join_def filepath_Clean_def dirPrefix_def cleanParts_name [OF assms(2-)] joinSlash_snoc Let_def)
qed

section \<open>Runs\<close>

definition chartNames :: "string list" where
  "chartNames = [''allocations.svg'', ''binary-size.svg'', ''cold-rss.svg'', ''latency.svg'']"

text \<open>Whatever the order of the iteration, the sorted names are these.\<close>

lemma sort_names:
  assumes "mset names = mset chartNames"
  shows "sort names = chartNames"
proof -
  have "sorted chartNames" by code_simp
  with assms show ?thesis by (intro properties_for_sort) simp_all
qed

lemma renderCharts_names: "renderCharts input = Inr charts \<Longrightarrow> mset (map fst charts) = mset chartNames"
  by (auto simp: renderCharts_def chartNames_def Let_def split: sum.splits prod.splits)

definition writeCall :: "string \<Rightarrow> (string \<times> string) list \<Rightarrow> string \<Rightarrow> osCall" where
  "writeCall outDir charts name = CallWriteFile (dirPrefix outDir @ name) (chartOf charts name)"

lemma fatal_run:
  assumes "fatal os err s = (Ret r, t)"
  shows "r = Exited 1 \<and> calls t = calls s @ [CallStderr err]"
  using assms unfolding fatal_def
  by (elim bindE_RetE) (auto simp: retE_apply dest: calls_extcall)

lemma writeCharts_run:
  assumes "writeCharts os outDir charts names s = (Ret r, t)" and "set names \<subseteq> set chartNames"
  shows "\<exists>trace. calls t = calls s @ trace \<and>
     (r = Finished \<and> trace = map (writeCall outDir charts) names \<or>
      r = Exited 1 \<and> (\<exists>made err. trace = made @ [CallStderr err] \<and> prefix made (map (writeCall outDir charts) names)))"
  using assms
proof (induction names arbitrary: s)
  case (Cons name names)
  have path: "filepath_Join outDir name = dirPrefix outDir @ name"
    using Cons.prems(2) by (intro filepath_Join_prefix) (auto simp: chartNames_def)
  from Cons.prems(1) obtain result s' where
    w: "extcall (writeCall outDir charts name) (os_WriteFile os (dirPrefix outDir @ name) (chartOf charts name)) s = (Ret result, s')"
    and rest: "(case result of Some err \<Rightarrow> fatal os (ErrWrite name err) | None \<Rightarrow> writeCharts os outDir charts names) s' = (Ret r, t)"
    unfolding writeCharts.simps Let_def path writeCall_def by (rule bindE_RetE)
  have c: "calls s' = calls s @ [writeCall outDir charts name]" by (rule calls_extcall [OF w])
  show ?case
  proof (cases result)
    case None
    with rest Cons.IH [of s'] Cons.prems(2) c show ?thesis by auto
  next
    case (Some err)
    with rest fatal_run [of os "ErrWrite name err" s' r t] c show ?thesis
      by (auto intro!: exI [of _ "[writeCall outDir charts name]"])
  qed
qed (simp add: retE_apply)

lemma loadDataset_run:
  assumes "loadDataset os path s = (Ret loaded, t)"
  shows "calls t = calls s @ [CallReadFile path] \<and>
    (\<forall>input. loaded = Inr input \<longrightarrow>
       (\<exists>contents. fst (os_ReadFile os path (world s)) = Ret (Inr contents) \<and> decodeDataset contents = Inr input))"
proof -
  from assms obtain result where read: "extcall (CallReadFile path) (os_ReadFile os path) s = (Ret result, t)"
    and loaded: "\<And>input. loaded = Inr input \<Longrightarrow> \<exists>contents. result = Inr contents \<and> decodeDataset contents = Inr input"
    unfolding loadDataset_def
    by (elim bindE_RetE) (auto simp: retE_apply split: sum.splits option.splits)
  have "fst (os_ReadFile os path (world s)) = Ret result"
    using read by (auto simp: extcall_def split: prod.splits)
  with read loaded show ?thesis by (auto dest: calls_extcall)
qed

text \<open>
  The calls of a complete run: the dataset is read and decoded, the directory made, and the
  four charts of the dataset are written in the order of their names.
\<close>

definition completeRun ::
    "'w os \<Rightarrow> string \<Rightarrow> string \<Rightarrow> 'w \<Rightarrow> osCall list \<Rightarrow> bool" where
  "completeRun os dataPath outDir w trace \<longleftrightarrow>
     (\<exists>contents input charts. fst (os_ReadFile os dataPath w) = Ret (Inr contents) \<and>
        decodeDataset contents = Inr input \<and> renderCharts input = Inr charts \<and>
        trace = [CallReadFile dataPath, CallMkdirAll outDir] @ map (writeCall outDir charts) chartNames)"

lemma drawing_run:
  assumes iterate: "\<forall>ks. mset (iterate ks) = mset ks" and charts: "renderCharts input = Inr charts"
    and run: "bindE (extcall (CallMkdirAll outDir) (os_MkdirAll os outDir)) (\<lambda>made.
       case made of Some err \<Rightarrow> fatal os (ErrMkdir err)
       | None \<Rightarrow> writeCharts os outDir charts (sort (iterate (map fst charts)))) s = (Ret r, t)"
  shows "\<exists>trace. calls t = calls s @ trace \<and>
     (r = Finished \<and> trace = CallMkdirAll outDir # map (writeCall outDir charts) chartNames \<or>
      r = Exited 1 \<and> (\<exists>made err. trace = made @ [CallStderr err] \<and>
        prefix made (CallMkdirAll outDir # map (writeCall outDir charts) chartNames)))"
proof -
  have names: "sort (iterate (map fst charts)) = chartNames"
    using iterate renderCharts_names [OF charts] by (intro sort_names) simp
  from run obtain made s' where mk: "extcall (CallMkdirAll outDir) (os_MkdirAll os outDir) s = (Ret made, s')"
    and rest: "(case made of Some err \<Rightarrow> fatal os (ErrMkdir err) | None \<Rightarrow> writeCharts os outDir charts chartNames) s' = (Ret r, t)"
    unfolding names by (rule bindE_RetE)
  have c: "calls s' = calls s @ [CallMkdirAll outDir]" by (rule calls_extcall [OF mk])
  show ?thesis
  proof (cases made)
    case None
    with rest writeCharts_run [of os outDir charts chartNames s' r t] c show ?thesis by auto
  next
    case (Some err)
    with rest fatal_run [of os "ErrMkdir err" s' r t] c show ?thesis
      by (auto intro!: exI [of _ "[CallMkdirAll outDir]"])
  qed
qed

lemma bench_main_run:
  assumes iterate: "\<forall>ks. mset (iterate ks) = mset ks"
    and run: "bench_main os iterate dataPath outDir s = (Ret r, t)"
  shows "\<exists>trace. calls t = calls s @ trace \<and>
     (r = Finished \<and> completeRun os dataPath outDir (world s) trace \<or>
      r = Exited 1 \<and> (\<exists>made err. trace = made @ [CallStderr err] \<and>
        (made = [] \<or> made = [CallReadFile dataPath] \<or>
         (\<exists>plan. completeRun os dataPath outDir (world s) plan \<and> prefix made plan))))"
proof (cases "dataPath = [] \<or> outDir = []")
  case True
  with run fatal_run [of os ErrFlags s r t] show ?thesis by (auto simp: bench_main_def)
next
  case False
  with run obtain loaded s' where load: "loadDataset os dataPath s = (Ret loaded, s')"
    and rest: "(case loaded of Inl err \<Rightarrow> fatal os err | Inr input \<Rightarrow>
       (case renderCharts input of Inl err \<Rightarrow> fatal os (ErrDataset err) | Inr charts \<Rightarrow>
          bindE (extcall (CallMkdirAll outDir) (os_MkdirAll os outDir)) (\<lambda>made.
            case made of Some err \<Rightarrow> fatal os (ErrMkdir err)
            | None \<Rightarrow> writeCharts os outDir charts (sort (iterate (map fst charts)))))) s' = (Ret r, t)"
    unfolding bench_main_def by (auto elim!: bindE_RetE)
  note L = loadDataset_run [OF load]
  have failed: "\<exists>trace. calls t = calls s @ trace \<and> r = Exited 1 \<and> trace = [CallReadFile dataPath] @ [CallStderr err]"
    if "fatal os err s' = (Ret r, t)" for err
    using fatal_run [OF that] L by simp
  show ?thesis
  proof (cases loaded)
    case (Inl err)
    with rest failed [of err] show ?thesis by auto
  next
    case input: (Inr input)
    show ?thesis
    proof (cases "renderCharts input")
      case (Inl err)
      with input rest failed [of "ErrDataset err"] show ?thesis by auto
    next
      case (Inr charts)
      let ?plan = "[CallReadFile dataPath, CallMkdirAll outDir] @ map (writeCall outDir charts) chartNames"
      have complete: "completeRun os dataPath outDir (world s) ?plan"
        using L input Inr by (auto simp: completeRun_def)
      from drawing_run [OF iterate Inr, of outDir os s' r t] rest input Inr obtain trace where
        "calls t = calls s' @ trace"
        "r = Finished \<and> trace = CallMkdirAll outDir # map (writeCall outDir charts) chartNames \<or>
         r = Exited 1 \<and> (\<exists>made err. trace = made @ [CallStderr err] \<and>
           prefix made (CallMkdirAll outDir # map (writeCall outDir charts) chartNames))" by auto
      with complete L show ?thesis
        by (intro exI [of _ "CallReadFile dataPath # trace"]) (auto 4 4 simp: Cons_eq_append_conv)
    qed
  qed
qed

text \<open>When every call succeeds and the dataset is valid, the run completes.\<close>

definition succeeds :: "'w os \<Rightarrow> bool" where
  "succeeds os \<longleftrightarrow>
     (\<forall>dir w. fst (os_MkdirAll os dir w) = Ret None) \<and> (\<forall>path chart w. fst (os_WriteFile os path chart w) = Ret None)"

lemma writeCharts_finishes:
  assumes "succeeds os"
  shows "\<exists>t. writeCharts os outDir charts names s = (Ret Finished, t)"
proof (induction names arbitrary: s)
  case (Cons name names)
  let ?path = "filepath_Join outDir name"
  obtain s' where "extcall (CallWriteFile ?path (chartOf charts name)) (os_WriteFile os ?path (chartOf charts name)) s = (Ret None, s')"
    using assms extcall_returns by (metis succeeds_def)
  with Cons.IH [of s'] show ?case by (simp add: Let_def bindE_apply)
qed (simp add: retE_apply)

lemma bench_main_finishes:
  assumes "succeeds os" and "dataPath \<noteq> []" "outDir \<noteq> []"
    and "fst (os_ReadFile os dataPath (world s)) = Ret (Inr contents)" and "decodeDataset contents = Inr input"
    and valid: "dataset_validate input = None"
  shows "\<exists>t. bench_main os iterate dataPath outDir s = (Ret Finished, t)"
proof -
  obtain s1 where "extcall (CallReadFile dataPath) (os_ReadFile os dataPath) s = (Ret (Inr contents), s1)"
    using extcall_returns [of "os_ReadFile os dataPath" s] assms(4) by blast
  then have load: "loadDataset os dataPath s = (Ret (Inr input), s1)"
    using assms(5) valid by (simp add: loadDataset_def retE_apply bindE_apply)
  obtain s2 where mk: "extcall (CallMkdirAll outDir) (os_MkdirAll os outDir) s1 = (Ret None, s2)"
    using assms(1) extcall_returns by (metis succeeds_def)
  obtain charts where "renderCharts input = Inr charts" using renderCharts_valid [OF valid] by blast
  with load mk writeCharts_finishes [OF assms(1)] assms(2,3) show ?thesis
    by (simp add: bench_main_def bindE_apply)
qed

section \<open>Properties\<close>


text \<open>
  An operating system on which every call succeeds and every file holds the sample dataset; the
  world counts the files written.
\<close>

definition sampleText :: string where
  "sampleText = [CHR 0x0A] @ printJson [CHR 0x0A] (datasetJson sampleDataset) @ []"

lemma sample_text: "decodeDataset sampleText = Inr sampleDataset"
  unfolding sampleText_def
  by (intro decodeDataset_print sample_expressible) (simp add: blank_def isSpace_def)

definition sampleOs :: "nat os" where
  "sampleOs =
     \<lparr>os_ReadFile = (\<lambda>_. retE (Inr sampleText)), os_MkdirAll = (\<lambda>_. retE None),
      os_WriteFile = (\<lambda>_ _ n. (Ret None, Suc n)), os_Stderr = (\<lambda>_. retE ())\<rparr>"


end
