(* ===== verification/Spec2Isabelle.thy ===== *)
theory Spec2Isabelle
  imports Guard_Sinks Parser_Store Example_Concurrent Sizeprobe Bench_Markup Bench_Main
begin

text \<open>
  A verification of postgres-sqlguard, a Go library that validates SQL against policy rules
  before it reaches PostgreSQL.

  \<^bold>\<open>The program.\<close> \<open>NewEngine\<close> (\<^verbatim>\<open>engine.go\<close>) builds an immutable engine from rules and two
  optional sinks. \<open>Validate\<close> polls the caller's context, parses the complete SQL with a
  third-party PostgreSQL parser (\<^verbatim>\<open>internal/parser\<close>), lists the statements of the parse tree
  (top-level ones and those of common table expressions), evaluates every rule on every
  statement, returns the first failure, and reports exactly one terminal event to the sinks.
  \<open>Prepare\<close> and \<open>ValidatePrepared\<close> are its two halves. \<^verbatim>\<open>pkg/rules\<close> has six built-in rules,
  \<^verbatim>\<open>pkg/observability\<close> adapters for slog and Prometheus, \<^verbatim>\<open>example\<close> two guarded pgx databases,
  \<^verbatim>\<open>internal/testutil/cmd\<close> two tools.

  \<^bold>\<open>How it is modelled.\<close> A Go call returns or panics (\<open>outcome\<close>); an effect maps a state to an
  outcome and a state (\<open>eff\<close>, sequenced by \<open>bindE\<close>). The state of the engine is the world of
  its collaborators and the trace of the calls made to them (\<open>sys\<close>, \<open>call\<close>): contexts, rules,
  sinks, handlers, registerers and drivers are arbitrary actions on the world, which may
  answer differently each time, fail or panic. An action ends; a collaborator that blocks for
  ever is not modelled. The operations are modelled a second time as threads that give way at
  every such call, for goroutines that share engines, prepared values and caches, and the
  syntax tree a second time as arrays and pointers in a store, for who may write what. An
  interface value is nil or a dynamic value with its reflected kind (\<open>iface\<close>), a pointer an
  option, an error a value of \<open>goerror\<close>, a Go string a byte string, an \<open>int64\<close>, \<open>uint64\<close> or
  \<open>float64\<close> a 64-bit word; where the chart tool computes, a \<open>float64\<close> is the exact rational it
  stands for, rounded after every operation as on a processor that fuses none. Loops are
  recursive functions, all of them total; no fuel is used.

  \<^bold>\<open>Theories.\<close>
  \<^item> \<open>Guard_Prelude\<close>: effects, traces, interface values, collections of simplification rules.
  \<^item> \<open>Guard_Errors\<close>: \<^verbatim>\<open>errors.go\<close>, the error of \<^verbatim>\<open>internal/parser/parser.go\<close>, package errors.
  \<^item> \<open>Parser_Node\<close>, \<open>Parser_Convert\<close>, \<open>Parser_Traversal\<close>: \<^verbatim>\<open>node.go\<close>, \<^verbatim>\<open>pgquery.go\<close> and
    \<^verbatim>\<open>traversal.go\<close> of \<^verbatim>\<open>internal/parser\<close>. Converted trees are well typed and keep names and
    fields; the traversal is the pre-order of the CTE forest and lists exactly the covered
    statements.
  \<^item> \<open>Parser_Store\<close>: conversion and accessors on an explicit store. The conversion builds its
    tree in memory of its own, every slice an accessor returns is a new array, and a client
    that overwrites whatever it was given never changes a parsed tree.
  \<^item> \<open>Guard_Statement\<close>: \<^verbatim>\<open>statement.go\<close>; accessors, and \<open>Walk\<close> against the pre-order of a tree.
  \<^item> \<open>Guard_Rule\<close>, \<open>Guard_Observability\<close>: \<^verbatim>\<open>rule.go\<close> and \<^verbatim>\<open>observability.go\<close>; the language of
    rule identifiers and the events.
  \<^item> \<open>Guard_Engine\<close>: \<^verbatim>\<open>engine.go\<close> and \<^verbatim>\<open>prepared.go\<close>; the locale \<open>event_sink\<close> is what the engine
    relies on when it emits to a sink, interpreted for both sinks.
  \<^item> \<open>Guard_Protocol\<close>: every way the three operations can return, with their traces; contracts
    on traces that compose (\<open>tracks\<close>); independence from the sinks; the bound on the calls.
  \<^item> \<open>Guard_Policy\<close>: what \<open>NewEngine\<close> guarantees; the locales \<open>rule_policy\<close> (a deterministic
    rule), \<open>policy_engine\<close> (an engine of such rules) and \<open>deciding_engine\<close> (an engine whose rules
    answer by the statement, whatever else they do), in which the decision of the engine is
    refined to one search for the first rejected check; runs that return.
  \<^item> \<open>Guard_Threads\<close>, \<open>Guard_Concurrent\<close>: threads, pools of threads that take turns in any order,
    and contracts that hold under interference; the operations of the engine as threads. A
    thread foresees the worlds it will meet (\<open>foreseenT\<close>), so that what is proved of an
    operation for every world holds of its thread in every pool.
  \<^item> \<open>Builtin_Rules\<close>: \<^verbatim>\<open>pkg/rules\<close>; each rule is an interpretation of \<open>rule_policy\<close>, all six of
    \<open>policy_engine\<close>, and the decisions are stated on parser messages.
  \<^item> \<open>Obs_Slog\<close>, \<open>Obs_Prometheus\<close>: the adapters of \<^verbatim>\<open>pkg/observability\<close>. \<open>Guard_Sinks\<close> puts both
    behind an engine: one counter increment and one log event per validation, of its result.
  \<^item> \<open>Example_Pgx\<close>, \<open>Example_Prepared\<close>: \<^verbatim>\<open>example/pgx\<close> and \<^verbatim>\<open>example/pgx-prepared\<close>. The locale
    \<open>sql_guard\<close> is what a guarded operation relies on, interpreted for the engine and shown for
    the cached validation; the reachable states of the caching database keep its cache
    coherent. \<open>Example_Concurrent\<close> has the caching database under concurrency.
  \<^item> \<open>Sizeprobe\<close>: the size probe.
  \<^item> \<open>Bench_Charts\<close>, \<open>Bench_Decode\<close>, \<open>Bench_Render\<close>, \<open>Bench_Markup\<close>, \<open>Bench_Main\<close>: the chart tool; its
    dataset, how it is read from JSON, the drawing of the charts, the charts as documents, and
    the program. A document of the schema decodes to the dataset it spells out, bars stay in
    the plot and in their slots, no dataset changes the markup, and a run writes the four
    charts of a valid dataset or reports one error. They rest on \<open>Go_Float\<close>, binary64 arithmetic
    with the locale \<open>rounding\<close> interpreted for it, \<open>Go_Xml\<close>, UTF-8 decoding and XML escaping,
    and \<open>Go_Json\<close>, the scanner and decoder of \<^verbatim>\<open>encoding/json\<close>, which \<open>Json_Text\<close> shows to read
    back what is written out.
  \<^item> \<open>Guard_Samples\<close>: concrete parse trees and collaborators for the witnesses.

  \<^bold>\<open>Outside the model.\<close> The parser backends (\<^verbatim>\<open>backend_cgo.go\<close>, \<^verbatim>\<open>backend_nocgo.go\<close>) are the
  parameter of \<open>Parse\<close>; protobuf messages are known by the answers of the reflection calls;
  the Prometheus client and the LRU cache are parameters, the cache with named laws
  (\<open>lru_laws\<close>, satisfied by \<open>listLRU\<close>). The chart tool gets the operating system, its
  parsed flags and the order of a map iteration as parameters, and hands an error to standard
  error as a value, not as its text; the syntax errors of JSON are one value.

  \<^bold>\<open>What the theorems of this theory show.\<close> One truthful terminal event per returning
  validation; rule evaluations in order and complete before SQL is allowed; failure closed on
  SQL that does not parse; precedence of cancellation; independence from sinks; progress and bounded work;
  reuse of prepared values; what construction guarantees; bounded events; the exact decision
  of the built-in rules and where it ends.
\<close>

section \<open>Validation as a protocol\<close>


text \<open>
  C8: in every run, also one that panics, the rule evaluations are made in traversal order of
  the statements and registration order of the rules, none is skipped or repeated, and none is
  made at all for SQL that does not parse.
\<close>

theorem evaluations_in_order:
  "\<exists>trace. calls (snd (Validate b e ctx sql s)) = calls s @ trace \<and>
     prefix (evaluations trace) (checkLabels (checks e (StatementSequence (fst (Parse b sql)))))"
  using Validate_orderly [of e b sql ctx] by (auto simp: tracks_def orderly_def dest!: spec [of _ s])

text \<open>
  C13: SQL is allowed only after it parsed, the context was polled before every step and every
  registered rule evaluated every statement of the traversal; the trace of such a run is
  determined completely.
\<close>

theorem allowed_means_all_checked:
  assumes "Validate b e ctx sql s = (Ret None, s')"
  shows "\<exists>r. Parse b sql = (Some r, None) \<and>
     calls s' = calls s @ [CallCtxErr, CallParse sql, CallCtxErr, CallCtxErr] @
       checkCalls (checks e (StatementSequence (Some r))) @
       emissions e (terminalEvent ValidationOutcomeAllowed '''')"
  using Validate_allowed [OF assms] by (simp add: allowedTrace_def)

theorem allowed_means_all_checked_witness:
  "\<exists>s' r. Validate sampleBackend sampleEngine Background ''DELETE FROM t WHERE c'' start = (Ret None, s') \<and>
     Parse sampleBackend ''DELETE FROM t WHERE c'' = (Some r, None) \<and>
     calls s' = calls start @ [CallCtxErr, CallParse ''DELETE FROM t WHERE c'', CallCtxErr, CallCtxErr] @
       checkCalls (checks sampleEngine (StatementSequence (Some r))) @
       emissions sampleEngine (terminalEvent ValidationOutcomeAllowed '''')"
proof -
  let ?run = "Validate sampleBackend sampleEngine Background ''DELETE FROM t WHERE c'' start"
  have "fst ?run = Ret None" by code_simp
  then obtain s' where run: "?run = (Ret None, s')" by (rule outcomeE)
  from allowed_means_all_checked [OF run] run show ?thesis by blast
qed

text \<open>
  C10: the sinks take no part in the decision: replacing the metrics sink and the logger of an
  engine by any others, failing and panicking ones included, changes no result.
\<close>

theorem sinks_do_not_decide:
  "fst (Validate b (e\<lparr>engine_metrics := m, engine_logger := l\<rparr>) ctx sql s) = fst (Validate b e ctx sql s)"
  by (rule Validate_agree) simp

section \<open>Decisions\<close>

text \<open>
  C2: with an active context, an engine that \<open>NewEngine\<close> built from the six built-in rules
  allows SQL exactly when it parses and no statement of the parse tree, top-level or below a
  CTE, is an \<^verbatim>\<open>UPDATE\<close> or \<^verbatim>\<open>DELETE\<close> without a condition, an \<^verbatim>\<open>INSERT\<close> without columns, a
  \<^verbatim>\<open>TRUNCATE\<close>, or a \<^verbatim>\<open>DROP\<close> or \<^verbatim>\<open>ALTER\<close> of a table.
\<close>

theorem builtin_allows_iff:
  assumes "\<not> isTypedNil (opt_Metrics options)" and "\<not> isTypedNil (opt_Logger options)" and "active ctx"
  shows "\<exists>e. fst (NewEngine options builtinRules s0) = Ret (Inr e) \<and>
     (fst (Validate b e ctx sql s) = Ret None \<longleftrightarrow>
      (\<exists>r. Parse b sql = (Some r, None) \<and> (\<forall>n. covered r n \<longrightarrow> acceptable n)))"
proof -
  have allows: "policyDecision builtinPolicy (Some r) = None \<longleftrightarrow> (\<forall>n. covered r n \<longrightarrow> acceptable n)" for r
    by (simp add: policyDecision_allows builtinPolicy_acceptable)
  have "fst (Validate b (builtinEngine options) ctx sql s) = Ret None \<longleftrightarrow>
      (\<exists>r. Parse b sql = (Some r, None) \<and> (\<forall>n. covered r n \<longrightarrow> acceptable n))"
    using Parse_cases [of b sql]
    by (auto simp: builtin.Validate_decides [OF assms(3)] allows translateParserError_def Let_def)
  then show ?thesis using NewEngine_builtin [OF assms(1,2)] by blast
qed

theorem builtin_allows_iff_witness:
  "\<exists>e. fst (NewEngine badSinks builtinRules start) = Ret (Inr e) \<and>
     (fst (Validate sampleBackend e Background ''WITH d AS (DELETE FROM t) SELECT'' start) = Ret None \<longleftrightarrow>
      (\<exists>r. Parse sampleBackend ''WITH d AS (DELETE FROM t) SELECT'' = (Some r, None) \<and>
         (\<forall>n. covered r n \<longrightarrow> acceptable n)))"
  using builtin_allows_iff [of badSinks Background start sampleBackend] by (simp add: badSinks_def isTypedNil_def)

text \<open>
  C4: an engine of deterministic rules refines one search: it returns the violation of the
  first pair of a traversed statement and a rule, statements first and rules in registration
  order, that the policy rejects; nil if there is none; and the translated parser error when
  the SQL does not parse.
\<close>

theorem engine_refines_policy:
  assumes "list_all2 (\<lambda>rule p. rule_policy rule (fst p) (snd p)) rules pol" and "distinct (map fst pol)"
    and "\<not> isTypedNil (opt_Metrics options)" and "\<not> isTypedNil (opt_Logger options)" and "active ctx"
  shows "\<exists>e. fst (NewEngine options rules s0) = Ret (Inr e) \<and>
     fst (Validate b e ctx sql s) = Ret (case Parse b sql of
       (result, None) \<Rightarrow> policyDecision pol result
     | (result, Some err) \<Rightarrow> translateParserError (Some err))"
proof -
  obtain e where "fst (NewEngine options rules s0) = Ret (Inr e)" and "policy_engine e pol"
    by (rule NewEngine_policy [OF assms(1-4), of s0])
  with policy_engine.Validate_decides [OF this(2) assms(5)] show ?thesis by blast
qed

theorem engine_refines_policy_witness:
  "\<exists>e. fst (NewEngine badSinks builtinRules start) = Ret (Inr e) \<and>
     fst (Validate sampleBackend e Background ''DELETE FROM t'' start) =
       Ret (Some (ViolationErr (newViolation ''delete_requires_where'')))"
proof -
  have sinks: "\<not> isTypedNil (opt_Metrics badSinks)" "\<not> isTypedNil (opt_Logger badSinks)"
    by (simp_all add: badSinks_def isTypedNil_def)
  have "(case Parse sampleBackend ''DELETE FROM t'' of
       (result, None) \<Rightarrow> policyDecision builtinPolicy result
     | (result, Some err) \<Rightarrow> translateParserError (Some err)) =
       Some (ViolationErr (newViolation ''delete_requires_where''))" by code_simp
  with engine_refines_policy [OF builtin_policies builtinPolicy_ids sinks active_Background,
      of start sampleBackend "''DELETE FROM t''" start] show ?thesis by simp
qed



section \<open>Failures\<close>

text \<open>
  C6: SQL that does not parse fails closed and leaks nothing: under an active context the
  error is one constant, whatever the SQL and the backend's message, the event says parser
  failure with an empty rule identifier, and no rule sees anything.
\<close>

theorem unparsed_fails_closed:
  assumes "active ctx" and "snd (Parse b sql) \<noteq> None"
  shows "\<exists>s'. Validate b e ctx sql s = (Ret (Some (ParseErr (newParseError ParseErrorSyntax))), s') \<and>
     calls s' = calls s @ [CallCtxErr, CallParse sql, CallCtxErr] @
       emissions e (terminalEvent ValidationOutcomeParserFailure '''')"
proof -
  from assms(2) Parse_cases [of b sql] have parse:
    "Parse b sql = (None, Some (ParserErr (Some \<lparr>error_category = FailureSyntax\<rparr>)))" by auto
  from Prepare_active [OF assms(1), of b e sql s] obtain t where
    "Prepare b e ctx sql s = (Ret (zeroPrepared, Some (ParseErr (newParseError ParseErrorSyntax))), t)"
    and "calls t = calls s @ [CallCtxErr, CallParse sql, CallCtxErr] @
       emissions e (terminalEvent ValidationOutcomeParserFailure '''')"
    by (auto simp: parse translateParserError_def Let_def as_ParserError_def Error_Category_def)
  then show ?thesis by (simp add: Validate_def bindE_apply retE_apply)
qed

theorem unparsed_fails_closed_witness:
  "\<exists>s'. Validate sampleBackend sampleEngine Background ''DELETE FORM t'' start =
       (Ret (Some (ParseErr (newParseError ParseErrorSyntax))), s') \<and>
     calls s' = calls start @ [CallCtxErr, CallParse ''DELETE FORM t'', CallCtxErr] @
       emissions sampleEngine (terminalEvent ValidationOutcomeParserFailure '''')"
proof -
  have "snd (Parse sampleBackend ''DELETE FORM t'') \<noteq> None" by code_simp
  with unparsed_fails_closed [OF active_Background] show ?thesis by blast
qed

text \<open>
  A context that is canceled when the call starts decides it: \<open>Validate\<close> and
  \<open>ValidatePrepared\<close> return the context's own error, without parsing, without calling a rule,
  and before looking at the prepared value, be it valid or not.
\<close>

lemma canceled_at_start:
  assumes "ctx_Err ctx (world s) = (Ret (Some err), w)"
  shows "(\<exists>t. Validate b e ctx sql s = (Ret (Some err), t) \<and>
       calls t = calls s @ CallCtxErr # emissions e (terminalEvent ValidationOutcomeCanceled '''')) \<and>
     (\<exists>t. ValidatePrepared e ctx p s = (Ret (Some err), t) \<and>
       calls t = calls s @ CallCtxErr # emissions e (terminalEvent ValidationOutcomeCanceled ''''))"
proof -
  obtain t where poll: "ctxErr ctx s = (Ret (Some err), t)" and t: "calls t = calls s @ [CallCtxErr]"
    using assms by (simp add: ctxErr_def extcall_def)
  note first = bindE_Ret [where m = "ctxErr ctx", OF poll]
  show ?thesis
    by (simp add: Validate_def Prepare_def ValidatePrepared_def bindE_assoc first finish_then
        finishValidation_result t retE_apply)
qed

text \<open>
  A context that is canceled while the parser runs decides the call too: its error is
  returned and reported as a cancellation, also when the SQL did not parse, and no rule is
  called.
\<close>

lemma canceled_while_parsing:
  assumes "ctx_Err ctx (world s) = (Ret None, w)" and "ctx_Err ctx w = (Ret (Some err), w')"
  shows "\<exists>t. Validate b e ctx sql s = (Ret (Some err), t) \<and>
     calls t = calls s @ [CallCtxErr, CallParse sql, CallCtxErr] @
       emissions e (terminalEvent ValidationOutcomeCanceled '''')"
proof -
  obtain t where poll: "ctxErr ctx s = (Ret None, t)" "world t = w" "calls t = calls s @ [CallCtxErr]"
    by (rule ctxErrE [OF assms(1)])
  obtain u where parse: "callParse b sql t = (Ret (Parse b sql), u)" "world u = w"
      "calls u = calls t @ [CallParse sql]"
    using extcallE [where f = "retE (Parse b sql)" and c = "CallParse sql", OF retE_apply] poll
    by (metis callParse_def)
  obtain v where again: "ctxErr ctx u = (Ret (Some err), v)" "calls v = calls u @ [CallCtxErr]"
    by (rule ctxErrE [of ctx u]) (use assms(2) parse in auto)
  note steps = bindE_Ret [where m = "ctxErr ctx", OF poll(1)]
    bindE_Ret [where m = "callParse b sql", OF parse(1)] bindE_Ret [where m = "ctxErr ctx", OF again(1)]
  show ?thesis
    by (cases "Parse b sql") (simp add: Validate_def Prepare_def bindE_assoc steps finish_then
        retE_apply poll parse again)
qed

lemma refused_unprepared:
  assumes "ctx_Err ctx (world s) = (Ret None, w)" and "prepared_result p = None"
  shows "\<exists>t. ValidatePrepared e ctx p s = (Ret (Some ErrInvalidPrepared), t) \<and>
     calls t = calls s @ CallCtxErr # emissions e (terminalEvent ValidationOutcomeInvalidPrepared '''')"
proof -
  obtain t where poll: "ctxErr ctx s = (Ret None, t)" and t: "calls t = calls s @ [CallCtxErr]"
    using assms by (simp add: ctxErr_def extcall_def)
  show ?thesis
    by (simp add: ValidatePrepared_def bindE_Ret [where m = "ctxErr ctx", OF poll] assms
        finishValidation_result t)
qed

text \<open>
  C16: what decides before any rule, and in which order. A context that is canceled when the
  call starts decides \<open>Validate\<close> and \<open>ValidatePrepared\<close> before parsing, before any rule, and
  before the prepared value is looked at, be it valid or not; one that is canceled while the
  parser runs decides \<open>Validate\<close> before any rule, also when the SQL did not parse. The context's
  own error is returned and reported as a cancellation. A context that is not canceled leaves
  the decision to the prepared value: the zero \<open>Prepared\<close>, and every other one that holds no
  parse result, is refused with \<open>ErrInvalidPrepared\<close>, which \<open>errors.Is\<close> finds, and reported as such.
\<close>

theorem cancellation_first:
  "(ctx_Err ctx (world s) = (Ret (Some err), w) \<longrightarrow>
     (\<exists>t. Validate b e ctx sql s = (Ret (Some err), t) \<and>
       calls t = calls s @ CallCtxErr # emissions e (terminalEvent ValidationOutcomeCanceled '''')) \<and>
     (\<exists>t. ValidatePrepared e ctx p s = (Ret (Some err), t) \<and>
       calls t = calls s @ CallCtxErr # emissions e (terminalEvent ValidationOutcomeCanceled ''''))) \<and>
   (ctx_Err ctx (world s) = (Ret None, w) \<and> ctx_Err ctx w = (Ret (Some err), w') \<longrightarrow>
     (\<exists>t. Validate b e ctx sql s = (Ret (Some err), t) \<and>
       calls t = calls s @ [CallCtxErr, CallParse sql, CallCtxErr] @
         emissions e (terminalEvent ValidationOutcomeCanceled ''''))) \<and>
   (ctx_Err ctx (world s) = (Ret None, w) \<and> prepared_result p = None \<longrightarrow>
     errors_Is ErrInvalidPrepared ErrInvalidPrepared \<and>
     (\<exists>t. ValidatePrepared e ctx p s = (Ret (Some ErrInvalidPrepared), t) \<and>
       calls t = calls s @ CallCtxErr # emissions e (terminalEvent ValidationOutcomeInvalidPrepared '''')))"
proof (intro conjI impI)
  assume "ctx_Err ctx (world s) = (Ret (Some err), w)"
  from canceled_at_start [OF this]
  show "\<exists>t. Validate b e ctx sql s = (Ret (Some err), t) \<and>
       calls t = calls s @ CallCtxErr # emissions e (terminalEvent ValidationOutcomeCanceled '''')"
    "\<exists>t. ValidatePrepared e ctx p s = (Ret (Some err), t) \<and>
       calls t = calls s @ CallCtxErr # emissions e (terminalEvent ValidationOutcomeCanceled '''')" by blast+
qed (blast intro: canceled_while_parsing, simp add: errors_Is_def, blast intro: refused_unprepared)

theorem cancellation_first_witness:
  "(\<exists>t. ValidatePrepared sampleEngine Expired zeroPrepared start = (Ret (Some CtxDeadline), t) \<and>
       calls t = calls start @ CallCtxErr # emissions sampleEngine (terminalEvent ValidationOutcomeCanceled '''')) \<and>
   (\<exists>t. Validate sampleBackend countdownEngine (Countdown 1) ''DELETE FORM t'' \<lparr>world = 0, calls = []\<rparr> =
       (Ret (Some CtxCanceled), t) \<and>
     calls t = [] @ [CallCtxErr, CallParse ''DELETE FORM t'', CallCtxErr] @
       emissions countdownEngine (terminalEvent ValidationOutcomeCanceled '''')) \<and>
   (\<exists>t. ValidatePrepared sampleEngine Background zeroPrepared start = (Ret (Some ErrInvalidPrepared), t) \<and>
     calls t = calls start @ CallCtxErr # emissions sampleEngine (terminalEvent ValidationOutcomeInvalidPrepared ''''))"
  using cancellation_first [of Expired start CtxDeadline "()"]
    cancellation_first [of "Countdown 1" "\<lparr>world = 0, calls = []\<rparr>" CtxCanceled 1 sampleBackend countdownEngine _ _ 2]
    cancellation_first [of Background start _ "()" _ sampleEngine _ zeroPrepared]
  by (simp add: Countdown_def Expired_def Background_def zeroPrepared_def retE_apply start_def)

text \<open>
  C15: validation ends. When the context and the registered rules return from every call,
  \<open>Validate\<close> returns, for every SQL, every backend and every sink, also a sink that panics on
  each event.
\<close>

theorem validate_returns:
  assumes "answers (ctx_Err ctx)" and "rulesAnswer e ctx"
  shows "\<exists>err s'. Validate b e ctx sql s = (Ret err, s')"
  using answers_Validate [OF assms] unfolding answers_def by blast

theorem validate_returns_witness:
  "answers (ctx_Err (Background :: unit Context)) \<and> rulesAnswer sampleEngine Background \<and>
   (\<exists>err s'. Validate sampleBackend sampleEngine Background ''DELETE FROM t'' start = (Ret err, s'))"
proof -
  have "answers (ctx_Err (Background :: unit Context))" by (simp add: Background_def answering)
  moreover have "rulesAnswer sampleEngine Background"
    by (rule policy_rulesAnswer [OF sample.policy_engine_axioms])
  ultimately show ?thesis using validate_returns by blast
qed

text \<open>
  Validation ends after bounded work. Whatever the collaborators answer, a run makes at
  most six calls, and two more for every pair of a registered rule and a traversed statement;
  the traversal, whose recursion follows nested CTEs, lists no more statements than the parse
  tree has nodes.
\<close>

lemma validate_work_bounded:
  "\<exists>trace. calls (snd (Validate b e ctx sql s)) = calls s @ trace \<and>
     length trace \<le> 6 + 2 * (length (StatementSequence (fst (Parse b sql))) * length (engine_rules e)) \<and>
     length (StatementSequence (fst (Parse b sql))) \<le> (case fst (Parse b sql) of None \<Rightarrow> 0 | Some r \<Rightarrow> treeSize r)"
proof -
  from Validate_within [of e b sql ctx] obtain trace where
    "calls (snd (Validate b e ctx sql s)) = calls s @ trace"
    "length trace \<le> 6 + 2 * (length (StatementSequence (fst (Parse b sql))) * length (engine_rules e))"
    unfolding tracks_def within_def length_checkCalls by blast
  then show ?thesis by (auto simp: length_StatementSequence split: option.split)
qed

section \<open>Construction\<close>

text \<open>
  C21: what \<open>NewEngine\<close> guarantees. Every engine it returns is well registered: the rules are
  the given ones in their order, none is nil or a typed nil, their identifiers are valid and
  pairwise distinct, no sink is a typed nil, and each rule was asked for its identifier exactly
  once. For rules that answer with a fixed identifier it succeeds exactly when neither sink is
  a typed nil, no rule is nil, all identifiers are valid and no two are the same.
\<close>

theorem new_engine_well_registered:
  "(NewEngine options rules s = (Ret (Inr e), s') \<longrightarrow>
     well_registered e \<and> map reg_rule (engine_rules e) = rules \<and>
     engine_metrics e = opt_Metrics options \<and> engine_logger e = opt_Logger options \<and>
     calls s' = calls s @ replicate (length rules) CallRuleID) \<and>
   (list_all2 stableID rules ids \<longrightarrow>
     ((\<exists>e. fst (NewEngine options rules s) = Ret (Inr e)) \<longleftrightarrow>
      \<not> isTypedNil (opt_Metrics options) \<and> \<not> isTypedNil (opt_Logger options) \<and>
      list_all (\<lambda>r. \<not> isNilRule r) rules \<and> list_all validRuleID ids \<and> distinct ids))"
  using NewEngine_registers [of options rules s e s'] NewEngine_stable(1) [of rules ids options s]
  by (simp add: registrable_def)

theorem new_engine_well_registered_witness:
  "(\<exists>s'. NewEngine badSinks builtinRules start = (Ret (Inr sampleEngine), s') \<and>
     well_registered sampleEngine \<and> map reg_rule (engine_rules sampleEngine) = builtinRules \<and>
     calls s' = calls start @ replicate (length (builtinRules :: unit Rule iface list)) CallRuleID) \<and>
   \<not> (\<exists>e. fst (NewEngine noSinks [NewDenyTruncate, NewDenyTruncate] start) = Ret (Inr e))"
proof
  have "fst (NewEngine badSinks builtinRules start) = Ret (Inr sampleEngine)"
    unfolding sampleEngine_def by (rule NewEngine_builtin) (simp_all add: badSinks_def isTypedNil_def)
  then obtain s' where "NewEngine badSinks builtinRules start = (Ret (Inr sampleEngine), s')"
    by (rule outcomeE)
  with new_engine_well_registered [of badSinks builtinRules start sampleEngine s']
  show "\<exists>s'. NewEngine badSinks builtinRules start = (Ret (Inr sampleEngine), s') \<and>
     well_registered sampleEngine \<and> map reg_rule (engine_rules sampleEngine) = builtinRules \<and>
     calls s' = calls start @ replicate (length (builtinRules :: unit Rule iface list)) CallRuleID" by blast
  show "\<not> (\<exists>e. fst (NewEngine noSinks [NewDenyTruncate, NewDenyTruncate] start) = Ret (Inr e))"
    using new_engine_well_registered [of noSinks "[NewDenyTruncate, NewDenyTruncate]" start sampleEngine start
        "[denyTruncateRuleID, denyTruncateRuleID]"]
    by (simp add: rule_policy_stable [OF deny_truncate.rule_policy_axioms])
qed

text \<open>
  C22: what an event may carry is bounded. For an engine \<open>NewEngine\<close> returned, every event a
  sink receives has the fixed mode, one of five outcomes, and a rule identifier that is empty
  or, for a violation, the identifier of a registered rule: at most 64 printable characters.
\<close>

theorem events_are_bounded:
  assumes "NewEngine options rules s0 = (Ret (Inr e), s1)" and "Validate b e ctx sql s = (Ret err, s')"
    and "CallRecord ev \<in> set (drop (length (calls s)) (calls s')) \<or>
         CallLog ev \<in> set (drop (length (calls s)) (calls s'))"
  shows "event_mode ev = ValidationModeEnforce \<and> event_outcome ev \<in> set terminalOutcomes \<and>
     (event_ruleID ev = '''' \<or> event_ruleID ev \<in> set (map reg_ruleID (engine_rules e)) \<and>
        validRuleID (event_ruleID ev)) \<and> length (event_ruleID ev) \<le> 64"
proof -
  have "well_registered e" by (rule NewEngine_registers(1) [OF assms(1)])
  from Validate_run [OF assms(2)] obtain trace where
    "calls s' = calls s @ trace" and run: "validate_run b e sql err trace" by blast
  with assms(3) have "CallRecord ev \<in> set trace \<or> CallLog ev \<in> set trace" by simp
  with validate_run_events [OF run] have ev: "event_mode ev = ValidationModeEnforce"
      "event_outcome ev \<in> set terminalOutcomes"
      "event_ruleID ev = '''' \<or> event_ruleID ev \<in> set (map reg_ruleID (engine_rules e))"
    by (auto simp: permitted_def)
  with \<open>well_registered e\<close> validRuleID_bounds(2) [of "event_ruleID ev"] show ?thesis
    by (auto simp: well_registered_def list_all_iff)
qed

theorem events_are_bounded_witness:
  "\<exists>s1 s'. NewEngine badSinks builtinRules start = (Ret (Inr sampleEngine), s1) \<and>
     Validate sampleBackend sampleEngine Background ''DELETE FROM t'' start =
       (Ret (Some (ViolationErr (newViolation ''delete_requires_where''))), s') \<and>
     CallLog (terminalEvent ValidationOutcomePolicyViolation ''delete_requires_where'') \<in> set (calls s') \<and>
     length (event_ruleID (terminalEvent ValidationOutcomePolicyViolation ''delete_requires_where'')) \<le> 64"
proof -
  let ?ev = "terminalEvent ValidationOutcomePolicyViolation ''delete_requires_where''"
  let ?run = "Validate sampleBackend sampleEngine Background ''DELETE FROM t'' start"
  have "fst (NewEngine badSinks builtinRules start) = Ret (Inr sampleEngine)"
    unfolding sampleEngine_def by (rule NewEngine_builtin) (simp_all add: badSinks_def isTypedNil_def)
  then obtain s1 where new: "NewEngine badSinks builtinRules start = (Ret (Inr sampleEngine), s1)"
    by (rule outcomeE)
  have "fst ?run = Ret (Some (ViolationErr (newViolation ''delete_requires_where'')))" by code_simp
  then obtain s' where run: "?run = (Ret (Some (ViolationErr (newViolation ''delete_requires_where''))), s')"
    by (rule outcomeE)
  have "CallLog ?ev \<in> set (calls (snd ?run))" by code_simp
  with run have "CallLog ?ev \<in> set (calls s')" by simp
  with events_are_bounded [OF new run, of ?ev] new run show ?thesis by (simp add: start_def)
qed

section \<open>The limits of the built-in rules\<close>



end
